theory Spec2Isabelle
  imports Complex_Main "HOL-Library.AList" "HOL-Library.Char_ord" "HOL-Library.List_Lexorder"
    "HOL-Library.Log_Nat"
begin

section \<open>Values, tokens and expression trees\<close>

text \<open>
  The interpreter core of \<^verbatim>\<open>MySQLTerminalSimulator.jsx\<close>. Texts are lists of
  8-bit characters (code units below 256). A number is a rational. The one
  arithmetic operation the interpreter does on the numbers it stores, the addition of 1
  to an auto-increment counter, rounds its sum as the 64-bit floats of the source do
  (\<open>plusOne\<close>); the conversion of a numeric text to a number is taken exact, and the
  infinities and \<^verbatim>\<open>NaN\<close> are no numbers here. The values a row, a literal or an evaluation can hold are
  \<^verbatim>\<open>null\<close>, \<^verbatim>\<open>undefined\<close> (the read of a key an object does not
  have), booleans, numbers and texts. Keys inherited from the prototype of a plain
  object (\<^verbatim>\<open>constructor\<close>, \<^verbatim>\<open>toString\<close>, ...) are not modelled.
\<close>

datatype val = Null | Undefined | Bool bool | Num rat | Str string

datatype toktype = string_t | op_t | sym_t | word_t

datatype token = Token (ttype: toktype) (tvalue: string)

text \<open>
  An expression node, or \<open>NoExpr\<close> for the \<^verbatim>\<open>null\<close> the parser returns in
  place of a node.
\<close>

datatype expr =
    NoExpr
  | Literal val
  | Identifier string
  | Comp string expr expr
  | And expr expr
  | Or expr expr

section \<open>Characters\<close>

text \<open>The characters \<^verbatim>\<open>/\s/\<close> accepts, among the code units below 256.\<close>

definition isSpace :: "char \<Rightarrow> bool" where
  "isSpace c = (c \<in> set [CHR 0x20, CHR 0x09, CHR 0x0A, CHR 0x0B, CHR 0x0C, CHR 0x0D, CHR 0xA0])"

definition isQuote :: "char \<Rightarrow> bool" where
  "isQuote c = (c \<in> set [CHR 0x27, CHR 0x22, CHR 0x60])"

definition isPunct :: "char \<Rightarrow> bool" where
  "isPunct c = (c \<in> set '',();=<>!*'')"

definition isWordChar :: "char \<Rightarrow> bool" where
  "isWordChar c = (\<not> isSpace c \<and> \<not> isPunct c \<and> \<not> isQuote c)"

definition isDigit :: "char \<Rightarrow> bool" where
  "isDigit c = (c \<in> set ''0123456789'')"

text \<open>
  \<^verbatim>\<open>toUpperCase\<close> on one character: the ASCII letters; other characters stay.
  The source compares upper-cased texts with ASCII keywords only, and no other character
  has an upper case made of the letters of these keywords.
\<close>

definition upperChar :: "char \<Rightarrow> char" where
  "upperChar c =
     (case map_of (zip ''abcdefghijklmnopqrstuvwxyz'' ''ABCDEFGHIJKLMNOPQRSTUVWXYZ'') c of
        Some u \<Rightarrow> u
      | None \<Rightarrow> c)"

definition upper :: "string \<Rightarrow> string" where
  "upper s = map upperChar s"

text \<open>\<^verbatim>\<open>x.replace(/^`|`$/g,'')\<close>: one leading and one trailing backtick go.\<close>

definition normalizeIdent :: "string \<Rightarrow> string" where
  "normalizeIdent x =
     (let y = (if x \<noteq> [] \<and> hd x = CHR 0x60 then tl x else x)
      in if y \<noteq> [] \<and> last y = CHR 0x60 then butlast y else y)"

text \<open>\<^verbatim>\<open>trim\<close>.\<close>

definition trim :: "string \<Rightarrow> string" where
  "trim s = rev (dropWhile isSpace (rev (dropWhile isSpace s)))"

section \<open>Numeric patterns\<close>

text \<open>\<^verbatim>\<open>/^\d+$/\<close>, \<^verbatim>\<open>/^\d+\.\d+$/\<close> and \<^verbatim>\<open>/^\d+(?:\.\d+)?$/\<close>.\<close>

definition isInteger :: "string \<Rightarrow> bool" where
  "isInteger s = (s \<noteq> [] \<and> list_all isDigit s)"

definition isDecimal :: "string \<Rightarrow> bool" where
  "isDecimal s =
     (let ip = takeWhile isDigit s; rest = dropWhile isDigit s
      in ip \<noteq> [] \<and> rest \<noteq> [] \<and> hd rest = CHR ''.'' \<and> isInteger (tl rest))"

definition isUnsignedNumber :: "string \<Rightarrow> bool" where
  "isUnsignedNumber s = (isInteger s \<or> isDecimal s)"

definition digitVal :: "char \<Rightarrow> nat" where
  "digitVal c = of_char c - 48"

definition natOfDigits :: "string \<Rightarrow> nat" where
  "natOfDigits s = foldl (\<lambda>n c. 10 * n + digitVal c) 0 s"

text \<open>
  \<^verbatim>\<open>Number(t)\<close> for a text \<open>t\<close> that matches one of the numeric patterns: the
  decimal it writes.
\<close>

definition digitsNumber :: "string \<Rightarrow> rat" where
  "digitsNumber s =
     (let ip = takeWhile isDigit s; fp = drop (length ip + 1) s
      in of_nat (natOfDigits ip) + of_nat (natOfDigits fp) / 10 ^ length fp)"

section \<open>Tokenizer\<close>

text \<open>
  The inner loop of \<^verbatim>\<open>tokenize\<close> after an opening quote \<open>q\<close>: a backslash
  followed by a character appends that character, the quote ends the token, the end
  of the input ends it too.
\<close>

fun readQuoted :: "char \<Rightarrow> string \<Rightarrow> string \<Rightarrow> string \<times> string" where
  "readQuoted q buf [] = (buf, [])"
| "readQuoted q buf [c] = (if c = q then (buf, []) else (buf @ [c], []))"
| "readQuoted q buf (c # d # cs) =
     (if c = CHR 0x5C then readQuoted q (buf @ [d]) cs
      else if c = q then (buf, d # cs)
      else readQuoted q (buf @ [c]) (d # cs))"

lemma readQuoted_length: "length (snd (readQuoted q buf cs)) \<le> length cs"
  by (induction q buf cs rule: readQuoted.induct) auto

function tokenize :: "string \<Rightarrow> token list" where
  "tokenize [] = []"
| "tokenize (ch # cs) =
     (if isSpace ch then tokenize cs
      else if isQuote ch then
        Token string_t (fst (readQuoted ch [] cs)) # tokenize (snd (readQuoted ch [] cs))
      else if isPunct ch then
        (if take 2 (ch # cs) \<in> set [''<='', ''>='', ''<>'', ''!='']
         then Token op_t (take 2 (ch # cs)) # tokenize (drop 1 cs)
         else Token sym_t [ch] # tokenize cs)
      else Token word_t (ch # takeWhile isWordChar cs) # tokenize (dropWhile isWordChar cs))"
  by pat_completeness auto
termination
proof (relation "measure length")
  show "wf (measure length)" by simp
next
  fix ch cs
  show "(snd (readQuoted ch [] cs), ch # cs) \<in> measure length"
    using readQuoted_length [of ch "[]" cs] by simp
next
  fix ch :: char and cs :: string
  show "(dropWhile isWordChar cs, ch # cs) \<in> measure length"
    using length_dropWhile_le [of isWordChar cs] by simp
qed auto

section \<open>The WHERE parser\<close>

definition compOps :: "string list" where
  "compOps = [''='', ''!='', ''<>'', ''>'', ''<'', ''>='', ''<='', ''LIKE'']"

text \<open>
  Each parser takes the token queue and returns its node with the queue that is left
  (\<^verbatim>\<open>shift\<close> removes the head, \<^verbatim>\<open>unshift\<close> puts it back).
\<close>

fun parseValue :: "token list \<Rightarrow> expr \<times> token list" where
  "parseValue [] = (NoExpr, [])"
| "parseValue (t # tok) =
     (if ttype t = string_t then (Literal (Str (tvalue t)), tok)
      else if ttype t = word_t then
        (if isUnsignedNumber (tvalue t) then (Literal (Num (digitsNumber (tvalue t))), tok)
         else (Identifier (normalizeIdent (tvalue t)), tok))
      else (NoExpr, tok))"

definition parseComp :: "token list \<Rightarrow> expr \<times> token list" where
  "parseComp tok =
     (case parseValue tok of (left, tok1) \<Rightarrow>
        if left = NoExpr then (NoExpr, tok1)
        else (case tok1 of
                [] \<Rightarrow> (left, [])
              | opTok # tok2 \<Rightarrow>
                  if upper (tvalue opTok) \<notin> set compOps then (left, opTok # tok2)
                  else (case parseValue tok2 of (right, tok3) \<Rightarrow>
                          (Comp (upper (tvalue opTok)) left right, tok3))))"

lemma parseValue_length: "length (snd (parseValue tok)) \<le> length tok"
  by (cases tok) auto

lemma parseComp_length: "length (snd (parseComp tok)) \<le> length tok"
proof -
  have a: "length (snd (parseValue tok)) \<le> length tok" by (rule parseValue_length)
  show ?thesis
  proof (cases "parseValue tok")
    case (Pair left tok1)
    with a have b: "length tok1 \<le> length tok" by simp
    show ?thesis
    proof (cases tok1)
      case Nil
      with Pair show ?thesis by (simp add: parseComp_def)
    next
      case (Cons opTok tok2)
      have "length (snd (parseValue tok2)) \<le> length tok2" by (rule parseValue_length)
      with Pair Cons b show ?thesis
        by (cases "parseValue tok2") (auto simp: parseComp_def)
    qed
  qed
qed

text \<open>The loop of \<^verbatim>\<open>parseAnd\<close>, from the node built so far.\<close>

function parseAndLoop :: "expr \<Rightarrow> token list \<Rightarrow> expr \<times> token list" where
  "parseAndLoop node [] = (node, [])"
| "parseAndLoop node (t # tok) =
     (if ttype t = word_t \<and> upper (tvalue t) = ''AND''
      then parseAndLoop (And node (fst (parseComp tok))) (snd (parseComp tok))
      else (node, t # tok))"
  by pat_completeness auto
termination
proof (relation "measure (\<lambda>(node, tok). length tok)")
  show "wf (measure (\<lambda>(node :: expr, tok :: token list). length tok))" by simp
next
  fix node :: expr and t :: token and tok :: "token list"
  show "((And node (fst (parseComp tok)), snd (parseComp tok)), node, t # tok)
          \<in> measure (\<lambda>(node, tok). length tok)"
    using parseComp_length [of tok] by simp
qed

definition parseAnd :: "token list \<Rightarrow> expr \<times> token list" where
  "parseAnd tok = parseAndLoop (fst (parseComp tok)) (snd (parseComp tok))"

lemma parseAndLoop_length: "length (snd (parseAndLoop node tok)) \<le> length tok"
proof (induction node tok rule: parseAndLoop.induct)
  case (1 node)
  show ?case by simp
next
  case (2 node t tok)
  show ?case
  proof (cases "ttype t = word_t \<and> upper (tvalue t) = ''AND''")
    case True
    with 2 have "length (snd (parseAndLoop node (t # tok))) \<le> length (snd (parseComp tok))"
      by simp
    also have "\<dots> \<le> length tok" by (rule parseComp_length)
    finally show ?thesis by simp
  next
    case False
    then show ?thesis by auto
  qed
qed

lemma parseAnd_length: "length (snd (parseAnd tok)) \<le> length tok"
  unfolding parseAnd_def
  using parseAndLoop_length [of "fst (parseComp tok)" "snd (parseComp tok)"]
        parseComp_length [of tok]
  by simp

text \<open>The loop of \<^verbatim>\<open>parseOr\<close>.\<close>

function parseOrLoop :: "expr \<Rightarrow> token list \<Rightarrow> expr \<times> token list" where
  "parseOrLoop node [] = (node, [])"
| "parseOrLoop node (t # tok) =
     (if ttype t = word_t \<and> upper (tvalue t) = ''OR''
      then parseOrLoop (Or node (fst (parseAnd tok))) (snd (parseAnd tok))
      else (node, t # tok))"
  by pat_completeness auto
termination
proof (relation "measure (\<lambda>(node, tok). length tok)")
  show "wf (measure (\<lambda>(node :: expr, tok :: token list). length tok))" by simp
next
  fix node :: expr and t :: token and tok :: "token list"
  show "((Or node (fst (parseAnd tok)), snd (parseAnd tok)), node, t # tok)
          \<in> measure (\<lambda>(node, tok). length tok)"
    using parseAnd_length [of tok] by simp
qed

definition parseOr :: "token list \<Rightarrow> expr \<times> token list" where
  "parseOr tok = parseOrLoop (fst (parseAnd tok)) (snd (parseAnd tok))"

text \<open>
  \<^verbatim>\<open>parseWhere\<close>: no clause (\<^verbatim>\<open>undefined\<close>) and the empty text give no
  tree; what \<^verbatim>\<open>parseOr\<close> leaves in the queue is dropped.
\<close>

definition parseWhere :: "string option \<Rightarrow> expr" where
  "parseWhere whereStr =
     (case whereStr of
        None \<Rightarrow> NoExpr
      | Some s \<Rightarrow> if s = [] then NoExpr else fst (parseOr (tokenize s)))"

section \<open>Rows and the primitives of the host language\<close>

text \<open>
  A row is an object: its keys in insertion order, each with one value. Reading a key
  the object does not have gives \<^verbatim>\<open>undefined\<close>; writing a key replaces its
  value in place or appends the key.
\<close>

type_synonym row = "(string \<times> val) list"

definition rowGet :: "row \<Rightarrow> string \<Rightarrow> val" where
  "rowGet r c = (case map_of r c of Some v \<Rightarrow> v | None \<Rightarrow> Undefined)"

definition rowSet :: "row \<Rightarrow> string \<Rightarrow> val \<Rightarrow> row" where
  "rowSet r c v = AList.update c v r"

text \<open>
  The conversions the host language brings and this development does not define:
  the number a text converts to (\<open>None\<close> is \<^verbatim>\<open>NaN\<close>), the text of a number, and
  the test of a text against a case-insensitive regular expression built from a
  pattern text (\<open>None\<close>: the pattern is refused and the construction throws). Every
  definition below takes them as the parameter \<open>rt\<close>.
\<close>

record runtime =
  StringToNumber :: "string \<Rightarrow> rat option"
  NumberToString :: "rat \<Rightarrow> string"
  RegExpTest :: "string \<Rightarrow> string \<Rightarrow> bool option"

text \<open>\<^verbatim>\<open>Number(v)\<close>; \<open>None\<close> is \<^verbatim>\<open>NaN\<close>.\<close>

fun Number :: "runtime \<Rightarrow> val \<Rightarrow> rat option" where
  "Number rt Undefined = None"
| "Number rt Null = Some 0"
| "Number rt (Bool b) = Some (if b then 1 else 0)"
| "Number rt (Num n) = Some n"
| "Number rt (Str s) = StringToNumber rt s"

text \<open>\<^verbatim>\<open>String(v)\<close>.\<close>

fun String :: "runtime \<Rightarrow> val \<Rightarrow> string" where
  "String rt Undefined = ''undefined''"
| "String rt Null = ''null''"
| "String rt (Bool b) = (if b then ''true'' else ''false'')"
| "String rt (Num n) = NumberToString rt n"
| "String rt (Str s) = s"

text \<open>Whether a value counts as true in a condition.\<close>

fun truthy :: "val \<Rightarrow> bool" where
  "truthy Undefined = False"
| "truthy Null = False"
| "truthy (Bool b) = b"
| "truthy (Num n) = (n \<noteq> 0)"
| "truthy (Str s) = (s \<noteq> [])"

text \<open>
  \<^verbatim>\<open>l == r\<close>, the loose equality of the host language: values of one type are
  equal when they are the same, \<^verbatim>\<open>null\<close> and \<^verbatim>\<open>undefined\<close> equal each other
  and nothing else, a number and a text are compared after converting the text, a
  boolean is converted to a number first.
\<close>

fun looseEq :: "runtime \<Rightarrow> val \<Rightarrow> val \<Rightarrow> bool" where
  "looseEq rt Null r = (r = Null \<or> r = Undefined)"
| "looseEq rt Undefined r = (r = Null \<or> r = Undefined)"
| "looseEq rt (Num a) (Num b) = (a = b)"
| "looseEq rt (Num a) (Str t) = (StringToNumber rt t = Some a)"
| "looseEq rt (Num a) (Bool c) = (a = (if c then 1 else 0))"
| "looseEq rt (Num a) r = False"
| "looseEq rt (Str s) (Str t) = (s = t)"
| "looseEq rt (Str s) (Num b) = (StringToNumber rt s = Some b)"
| "looseEq rt (Str s) (Bool c) = (StringToNumber rt s = Some (if c then 1 else 0))"
| "looseEq rt (Str s) r = False"
| "looseEq rt (Bool b) (Bool c) = (b = c)"
| "looseEq rt (Bool b) (Num a) = (a = (if b then 1 else 0))"
| "looseEq rt (Bool b) (Str t) = (StringToNumber rt t = Some (if b then 1 else 0))"
| "looseEq rt (Bool b) r = False"

text \<open>
  \<^verbatim>\<open>a < b\<close> on two values: two texts by their code units, anything else as
  numbers, and never when one of the numbers is \<^verbatim>\<open>NaN\<close>. \<^verbatim>\<open>a > b\<close> is
  \<open>jsLess rt b a\<close>.
\<close>

definition numLess :: "rat option \<Rightarrow> rat option \<Rightarrow> bool" where
  "numLess a b = (case (a, b) of (Some x, Some y) \<Rightarrow> x < y | _ \<Rightarrow> False)"

definition numLessEq :: "rat option \<Rightarrow> rat option \<Rightarrow> bool" where
  "numLessEq a b = (case (a, b) of (Some x, Some y) \<Rightarrow> x \<le> y | _ \<Rightarrow> False)"

definition jsLess :: "runtime \<Rightarrow> val \<Rightarrow> val \<Rightarrow> bool" where
  "jsLess rt a b =
     (case (a, b) of
        (Str s, Str t) \<Rightarrow> s < t
      | _ \<Rightarrow> numLess (Number rt a) (Number rt b))"

section \<open>The WHERE evaluator\<close>

text \<open>
  \<^verbatim>\<open>String(r).replace(/[%_]/g, ...)\<close>: the pattern of a \<^verbatim>\<open>LIKE\<close>.
\<close>

definition likePattern :: "string \<Rightarrow> string" where
  "likePattern p =
     concat (map (\<lambda>m. if m = CHR ''%'' then ''.*'' else if m = CHR ''_'' then ''.'' else [m]) p)"

text \<open>
  \<^verbatim>\<open>evalExpr\<close>. The result is \<open>None\<close> when the evaluation throws, which only the
  construction of the regular expression of a \<^verbatim>\<open>LIKE\<close> can do. \<^verbatim>\<open>&&\<close> and
  \<^verbatim>\<open>||\<close> return one of their operands and evaluate the right one only when needed.
\<close>

fun evalExpr :: "runtime \<Rightarrow> row \<Rightarrow> expr \<Rightarrow> val option" where
  "evalExpr rt r NoExpr = Some (Bool True)"
| "evalExpr rt r (Literal v) = Some v"
| "evalExpr rt r (Identifier nm) = Some (rowGet r (normalizeIdent nm))"
| "evalExpr rt r (Comp opr left right) =
     (case evalExpr rt r left of
        None \<Rightarrow> None
      | Some lv \<Rightarrow>
         (case evalExpr rt r right of
            None \<Rightarrow> None
          | Some rv \<Rightarrow>
              if opr = ''='' then Some (Bool (looseEq rt lv rv))
              else if opr = ''!='' \<or> opr = ''<>'' then Some (Bool (\<not> looseEq rt lv rv))
              else if opr = ''>'' then Some (Bool (numLess (Number rt rv) (Number rt lv)))
              else if opr = ''<'' then Some (Bool (numLess (Number rt lv) (Number rt rv)))
              else if opr = ''>='' then Some (Bool (numLessEq (Number rt rv) (Number rt lv)))
              else if opr = ''<='' then Some (Bool (numLessEq (Number rt lv) (Number rt rv)))
              else if opr = ''LIKE'' then
                map_option Bool
                  (RegExpTest rt (''^'' @ likePattern (String rt rv) @ ''$'') (String rt lv))
              else Some (Bool False)))"
| "evalExpr rt r (And left right) =
     (case evalExpr rt r left of
        None \<Rightarrow> None
      | Some lv \<Rightarrow> if truthy lv then evalExpr rt r right else Some lv)"
| "evalExpr rt r (Or left right) =
     (case evalExpr rt r left of
        None \<Rightarrow> None
      | Some lv \<Rightarrow> if truthy lv then Some lv else evalExpr rt r right)"

text \<open>
  Whether the condition holds for a row: the result of \<^verbatim>\<open>evalExpr\<close> taken as
  a condition, \<open>None\<close> when the evaluation throws.
\<close>

definition whereHolds :: "runtime \<Rightarrow> expr \<Rightarrow> row \<Rightarrow> bool option" where
  "whereHolds rt w r = map_option truthy (evalExpr rt r w)"

text \<open>
  \<^verbatim>\<open>rows.filter(p)\<close> for a test that may throw: the rows it keeps, in order, or
  \<open>None\<close> at the first throw.
\<close>

fun filterRows :: "(row \<Rightarrow> bool option) \<Rightarrow> row list \<Rightarrow> row list option" where
  "filterRows p [] = Some []"
| "filterRows p (r # rs) =
     (case p r of
        None \<Rightarrow> None
      | Some b \<Rightarrow>
         (case filterRows p rs of
            None \<Rightarrow> None
          | Some keep \<Rightarrow> Some (if b then r # keep else keep)))"

section \<open>Lists, literals and value tuples\<close>

text \<open>
  The loop of \<^verbatim>\<open>parseIdentifiersList\<close>: split at the commas outside single and
  double quotes, trim each piece and drop the empty ones.
\<close>

definition pushTrimmed :: "string list \<Rightarrow> string \<Rightarrow> string list" where
  "pushTrimmed res cur = (if trim cur \<noteq> [] then res @ [trim cur] else res)"

fun splitLoop :: "string list \<Rightarrow> string \<Rightarrow> bool \<Rightarrow> bool \<Rightarrow> string \<Rightarrow> string list" where
  "splitLoop res cur inS inD [] = pushTrimmed res cur"
| "splitLoop res cur inS inD (ch # cs) =
     (if ch = CHR 0x27 \<and> \<not> inD then splitLoop res (cur @ [ch]) (\<not> inS) inD cs
      else if ch = CHR 0x22 \<and> \<not> inS then splitLoop res (cur @ [ch]) inS (\<not> inD) cs
      else if ch = CHR '','' \<and> \<not> inS \<and> \<not> inD then splitLoop (pushTrimmed res cur) [] inS inD cs
      else splitLoop res (cur @ [ch]) inS inD cs)"

definition parseIdentifiersList :: "string \<Rightarrow> string list" where
  "parseIdentifiersList listStr = splitLoop [] [] False False listStr"

text \<open>
  \<^verbatim>\<open>parseLiteral\<close>. \<^verbatim>\<open>t.slice(1,-1)\<close> drops the first and the last character
  (of a text of one character, the only one).
\<close>

definition isQuotedBy :: "char \<Rightarrow> string \<Rightarrow> bool" where
  "isQuotedBy q t = (t \<noteq> [] \<and> hd t = q \<and> last t = q)"

definition parseLiteral :: "string \<Rightarrow> val" where
  "parseLiteral tk =
     (let t = trim tk in
      if upper t = ''NULL'' then Null
      else if isQuotedBy (CHR 0x27) t \<or> isQuotedBy (CHR 0x22) t then Str (butlast (tl t))
      else if isInteger t then Num (digitsNumber t)
      else if isDecimal t then Num (digitsNumber t)
      else Str (normalizeIdent t))"

text \<open>
  The loop of \<^verbatim>\<open>parseValuesList\<close>: the text between the outermost parentheses
  of each group; \<open>depth\<close> may go below zero.
\<close>

fun groupLoop :: "string list \<Rightarrow> int \<Rightarrow> string \<Rightarrow> string \<Rightarrow> string list" where
  "groupLoop acc depth cur [] = acc"
| "groupLoop acc depth cur (ch # cs) =
     (if ch = CHR ''('' then
        groupLoop acc (depth + 1) (if depth > 0 then cur @ [ch] else cur) cs
      else if ch = CHR '')'' then
        (if depth - 1 > 0 then groupLoop acc (depth - 1) (cur @ [ch]) cs
         else groupLoop (acc @ [cur]) (depth - 1) [] cs)
      else groupLoop acc depth (if depth > 0 then cur @ [ch] else cur) cs)"

definition parseValuesList :: "string \<Rightarrow> val list list" where
  "parseValuesList valsStr =
     map (\<lambda>g. map (\<lambda>v. parseLiteral (trim v)) (parseIdentifiersList g))
         (groupLoop [] 0 [] valsStr)"

section \<open>The store\<close>

text \<open>
  The engine object with the fields the executors read and write (\<^verbatim>\<open>version\<close>
  and \<^verbatim>\<open>client\<close> are constants of the status display). Objects used as
  dictionaries are association lists in insertion order.
\<close>

record column =
  name :: string
  ctype :: string
  auto :: bool
  pk :: bool

record table =
  columns :: "column list"
  rows :: "row list"

record database =
  tables :: "(string \<times> table) list"

record engine =
  databases :: "(string \<times> database) list"
  currentDB :: "string option"
  history :: "string list"
  autoinc :: "(string \<times> rat) list"

definition quoted :: "string \<Rightarrow> string" where
  "quoted s = [CHR 0x27] @ s @ [CHR 0x27]"

text \<open>
  \<^verbatim>\<open>ensureDB\<close>: the error text, or the selected database with its name.
\<close>

definition ensureDB :: "engine \<Rightarrow> string + (string \<times> database)" where
  "ensureDB e =
     (case currentDB e of
        None \<Rightarrow> Inl ''ERROR: No database selected. Use USE <dbname>;''
      | Some d \<Rightarrow>
          if d = [] then Inl ''ERROR: No database selected. Use USE <dbname>;''
          else (case map_of (databases e) d of
                  None \<Rightarrow> Inl (''ERROR: Unknown database '' @ quoted d @ ''.'')
                | Some db \<Rightarrow> Inr (d, db)))"

text \<open>Writing a table of the selected database back into the engine.\<close>

definition putTable :: "engine \<Rightarrow> string \<Rightarrow> database \<Rightarrow> string \<Rightarrow> table \<Rightarrow> engine" where
  "putTable e d db tableName t =
     e\<lparr>databases := AList.update d (db\<lparr>tables := AList.update tableName t (tables db)\<rparr>) (databases e)\<rparr>"

definition autoKey :: "string \<Rightarrow> string \<Rightarrow> string \<Rightarrow> string" where
  "autoKey d tableName col = d @ ''.'' @ tableName @ ''.'' @ col"

definition affectedText :: "runtime \<Rightarrow> nat \<Rightarrow> string" where
  "affectedText rt n = ''Query OK, '' @ NumberToString rt (of_nat n) @ '' row(s) affected''"

section \<open>INSERT\<close>

text \<open>
  The executors take the captures of the regular expression their statement is matched
  against; a statement that does not match never reaches the code below.
\<close>

text \<open>
  The first half of the loop body of \<^verbatim>\<open>insertInto\<close>: the arity check and the
  row of one value tuple, before the auto-increment columns are filled.
\<close>

definition buildRow :: "string list option \<Rightarrow> string list \<Rightarrow> val list \<Rightarrow> string + row" where
  "buildRow colsPart allCols rowVals =
     (case colsPart of
        Some cp \<Rightarrow>
          if length rowVals \<noteq> length cp
          then Inl ''ERROR: Column count doesn't match value count.''
          else Inr (fold (\<lambda>(c, v) r. rowSet r c v) (zip cp rowVals)
                      (fold (\<lambda>c r. rowSet r c Null) allCols []))
      | None \<Rightarrow>
          if length rowVals > length allCols then Inl ''ERROR: Too many values.''
          else Inr (fold (\<lambda>(c, i) r. rowSet r c (if i < length rowVals then rowVals ! i else Null))
                      (zip allCols [0..<length allCols]) []))"

text \<open>
  \<^verbatim>\<open>row[col] + 1\<close> is an addition of 64-bit floats: the exact sum, rounded to the
  nearest number with a significand of 53 bits, a tie going to the even significand.
  \<open>pow2 k\<close> is the power \<open>2 ^ k\<close> for an integer \<open>k\<close>; \<open>binaryExponent x\<close> is
  the \<open>k\<close> with \<open>2 ^ k \<le> |x| < 2 ^ (k + 1)\<close>, from the bit lengths of the numerator
  and the denominator of \<open>|x|\<close>; \<open>roundFloat x\<close> scales \<open>x\<close> so that its integer
  part has 53 bits, rounds to the nearest integer, the even one at a tie, and scales
  back. The exponent is not bounded: the sum of a finite float and 1 is never above the
  largest float, and never below the smallest normal one unless it is 0.
\<close>

definition pow2 :: "int \<Rightarrow> rat" where
  "pow2 k = (if 0 \<le> k then 2 ^ nat k else 1 / 2 ^ nat (- k))"

definition roundHalfEven :: "rat \<Rightarrow> int" where
  "roundHalfEven x =
     (let f = \<lfloor>x\<rfloor>; d = x - of_int f in
      if d < 1 / 2 then f
      else if 1 / 2 < d then f + 1
      else if even f then f else f + 1)"

definition binaryExponent :: "rat \<Rightarrow> int" where
  "binaryExponent x =
     (case quotient_of \<bar>x\<bar> of
        (n, d) \<Rightarrow>
          (let l = bitlen n - bitlen d in
           if pow2 l \<le> \<bar>x\<bar> then l else l - 1))"

definition roundFloat :: "rat \<Rightarrow> rat" where
  "roundFloat x =
     (if x = 0 then 0
      else (let k = binaryExponent x - 52 in of_int (roundHalfEven (x / pow2 k)) * pow2 k))"

definition plusOne :: "rat \<Rightarrow> rat" where
  "plusOne x = roundFloat (x + 1)"

text \<open>
  The second half: every auto-increment column the row leaves \<^verbatim>\<open>null\<close> or
  \<^verbatim>\<open>undefined\<close> takes the counter of its key (\<open>counterOf\<close>: 1 when the key has
  none), and the counter becomes that number plus one, as the floats add.
\<close>

definition counterOf :: "(string \<times> rat) list \<Rightarrow> string \<Rightarrow> rat" where
  "counterOf ai ky = (case map_of ai ky of Some n \<Rightarrow> n | None \<Rightarrow> 1)"

fun autoFill :: "string \<Rightarrow> string \<Rightarrow> string list \<Rightarrow> row \<times> (string \<times> rat) list
                   \<Rightarrow> row \<times> (string \<times> rat) list" where
  "autoFill d tableName [] st = st"
| "autoFill d tableName (col # cols) (r, ai) =
     (if rowGet r col = Null \<or> rowGet r col = Undefined
      then (let ky = autoKey d tableName col;
                v = counterOf ai ky
            in autoFill d tableName cols (rowSet r col (Num v), AList.update ky (plusOne v) ai))
      else autoFill d tableName cols (r, ai))"

text \<open>
  The loop over the value tuples. Its state is the rows of the table, the counters and
  the number of rows appended; an arity error returns at once, with the state as the
  earlier tuples left it.
\<close>

fun insertLoop :: "string list option \<Rightarrow> string list \<Rightarrow> string \<Rightarrow> string \<Rightarrow> string list
                     \<Rightarrow> val list list \<Rightarrow> row list \<times> (string \<times> rat) list \<times> nat
                     \<Rightarrow> (row list \<times> (string \<times> rat) list) \<times> (string + nat)" where
  "insertLoop colsPart allCols d tableName autokeys [] (rs, ai, n) = ((rs, ai), Inr n)"
| "insertLoop colsPart allCols d tableName autokeys (rowVals # rest) (rs, ai, n) =
     (case buildRow colsPart allCols rowVals of
        Inl err \<Rightarrow> ((rs, ai), Inl err)
      | Inr r \<Rightarrow>
          (case autoFill d tableName autokeys (r, ai) of
             (r', ai') \<Rightarrow>
               insertLoop colsPart allCols d tableName autokeys rest (rs @ [r'], ai', n + 1)))"

text \<open>
  \<^verbatim>\<open>colsPart\<close>: the names of the column list, or nothing when the statement has
  no list or an empty one.
\<close>

definition insertColumns :: "string option \<Rightarrow> string list option" where
  "insertColumns colsCapture =
     (case colsCapture of
        None \<Rightarrow> None
      | Some cs \<Rightarrow>
          if cs = [] then None
          else Some (map (\<lambda>c. normalizeIdent (filter (\<lambda>x. x \<noteq> CHR 0x60) c))
                       (parseIdentifiersList cs)))"

text \<open>
  \<^verbatim>\<open>insertInto\<close>, from the captures: the table name, the column list between
  the parentheses (if the statement has one) and the text after \<^verbatim>\<open>VALUES\<close>.
\<close>

definition insertInto :: "runtime \<Rightarrow> engine \<Rightarrow> string \<Rightarrow> string option \<Rightarrow> string \<Rightarrow> engine \<times> string" where
  "insertInto rt e tableName colsCapture valsPart =
     (case ensureDB e of
        Inl err \<Rightarrow> (e, err)
      | Inr (d, db) \<Rightarrow>
          (case map_of (tables db) tableName of
             None \<Rightarrow> (e, ''ERROR: Unknown table '' @ quoted tableName @ ''.'')
           | Some t \<Rightarrow>
               (let colsPart = insertColumns colsCapture;
                    valuesRows = parseValuesList valsPart;
                    autokeys = map name (filter auto (columns t));
                    allCols = map name (columns t)
                in (case insertLoop colsPart allCols d tableName autokeys valuesRows
                           (rows t, autoinc e, 0) of
                      ((rs, ai), res) \<Rightarrow>
                        ((putTable e d db tableName (t\<lparr>rows := rs\<rparr>))\<lparr>autoinc := ai\<rparr>,
                         (case res of
                            Inl err \<Rightarrow> err
                          | Inr n \<Rightarrow> affectedText rt n))))))"

section \<open>CREATE TABLE\<close>

text \<open>\<^verbatim>\<open>s.includes(sub)\<close>.\<close>

fun includesText :: "string \<Rightarrow> string \<Rightarrow> bool" where
  "includesText [] sub = (sub = [])"
| "includesText (c # cs) sub = (take (length sub) (c # cs) = sub \<or> includesText cs sub)"

text \<open>
  One column definition (a trimmed, non-empty piece of the list): its first word
  without a trailing comma and backticks is the name, its second word the type, the
  flags are found anywhere in the upper-cased definition. No column comes from a
  definition whose name is empty.
\<close>

definition parseColumn :: "string \<Rightarrow> column option" where
  "parseColumn df =
     (let p0 = takeWhile (\<lambda>c. \<not> isSpace c) df;
          p1 = takeWhile (\<lambda>c. \<not> isSpace c) (dropWhile isSpace (dropWhile (\<lambda>c. \<not> isSpace c) df));
          colName = normalizeIdent (if p0 \<noteq> [] \<and> last p0 = CHR '','' then butlast p0 else p0)
      in if colName = [] then None
         else Some \<lparr> name = colName,
                     ctype = (if p1 = [] then ''VARCHAR(255)'' else p1),
                     auto = includesText (upper df) ''AUTO_INCREMENT'',
                     pk = includesText (upper df) ''PRIMARY KEY'' \<rparr>)"

text \<open>
  \<^verbatim>\<open>createTable\<close>, from the table name and the text between the outer
  parentheses. The counter of every auto-increment column starts at 1.
\<close>

definition createTable :: "runtime \<Rightarrow> engine \<Rightarrow> string \<Rightarrow> string \<Rightarrow> engine \<times> string" where
  "createTable rt e tableName colsStr =
     (case ensureDB e of
        Inl err \<Rightarrow> (e, err)
      | Inr (d, db) \<Rightarrow>
          (let cols = List.map_filter parseColumn (parseIdentifiersList colsStr) in
           if map_of (tables db) tableName \<noteq> None
           then (e, ''ERROR: Table '' @ quoted tableName @ '' already exists.'')
           else ((putTable e d db tableName \<lparr> columns = cols, rows = [] \<rparr>)
                   \<lparr>autoinc := fold (\<lambda>c ai. if auto c then AList.update (autoKey d tableName (name c)) 1 ai
                                           else ai) cols (autoinc e)\<rparr>,
                 ''Query OK, table '' @ quoted tableName @ '' created with ''
                   @ NumberToString rt (of_nat (length cols)) @ '' column(s).'')))"

section \<open>DELETE and UPDATE\<close>

text \<open>
  \<^verbatim>\<open>deleteFrom\<close>, from the table name and the text after \<^verbatim>\<open>WHERE\<close> (if
  any): the rows the condition does not hold for stay. \<open>None\<close>: the evaluation of
  the condition threw.
\<close>

definition deleteFrom :: "runtime \<Rightarrow> engine \<Rightarrow> string \<Rightarrow> string option \<Rightarrow> (engine \<times> string) option" where
  "deleteFrom rt e tableName whereStr =
     (case ensureDB e of
        Inl err \<Rightarrow> Some (e, err)
      | Inr (d, db) \<Rightarrow>
          (case map_of (tables db) tableName of
             None \<Rightarrow> Some (e, ''ERROR: Unknown table '' @ quoted tableName @ ''.'')
           | Some t \<Rightarrow>
               (case filterRows (\<lambda>r. map_option Not (whereHolds rt (parseWhere whereStr) r)) (rows t) of
                  None \<Rightarrow> None
                | Some keep \<Rightarrow>
                    Some (putTable e d db tableName (t\<lparr>rows := keep\<rparr>),
                          affectedText rt (length (rows t) - length keep)))))"









section \<open>SELECT\<close>

text \<open>
  The comparator of \<^verbatim>\<open>rows.sort\<close>: \<^verbatim>\<open>null\<close> and \<^verbatim>\<open>undefined\<close> first,
  whatever the direction; otherwise \<^verbatim>\<open><\<close> and \<^verbatim>\<open>>\<close> on the two values.
\<close>

definition isNullish :: "val \<Rightarrow> bool" where
  "isNullish v = (v = Null \<or> v = Undefined)"

definition compareRows :: "runtime \<Rightarrow> string \<Rightarrow> string \<Rightarrow> row \<Rightarrow> row \<Rightarrow> int" where
  "compareRows rt orderCol orderDir a b =
     (let va = rowGet a orderCol; vb = rowGet b orderCol in
      if isNullish va \<and> isNullish vb then 0
      else if isNullish va then - 1
      else if isNullish vb then 1
      else if jsLess rt va vb then (if orderDir = ''ASC'' then - 1 else 1)
      else if jsLess rt vb va then (if orderDir = ''ASC'' then 1 else - 1)
      else 0)"

text \<open>
  \<^verbatim>\<open>Array.prototype.sort\<close> with a comparator: the stable sort, as an insertion
  sort. For a comparator that orders the elements consistently this is the one list
  the language allows as the result.
\<close>

fun insertSorted :: "('a \<Rightarrow> 'a \<Rightarrow> int) \<Rightarrow> 'a \<Rightarrow> 'a list \<Rightarrow> 'a list" where
  "insertSorted cmp x [] = [x]"
| "insertSorted cmp x (y # ys) =
     (if cmp x y \<le> 0 then x # y # ys else y # insertSorted cmp x ys)"

definition sortWith :: "('a \<Rightarrow> 'a \<Rightarrow> int) \<Rightarrow> 'a list \<Rightarrow> 'a list" where
  "sortWith cmp xs = foldr (insertSorted cmp) xs []"

text \<open>
  The rows a \<^verbatim>\<open>SELECT\<close> returns: filtered, sorted when the statement orders,
  then cut by \<^verbatim>\<open>OFFSET\<close> and \<^verbatim>\<open>LIMIT\<close>.
\<close>

definition selectRows :: "runtime \<Rightarrow> row list \<Rightarrow> string option \<Rightarrow> string option \<Rightarrow> string
                            \<Rightarrow> nat option \<Rightarrow> nat \<Rightarrow> row list option" where
  "selectRows rt rs whereStr orderColRaw orderDir limitN offsetN =
     (case filterRows (whereHolds rt (parseWhere whereStr)) rs of
        None \<Rightarrow> None
      | Some kept \<Rightarrow>
          (let sorted =
                 (case orderColRaw of
                    None \<Rightarrow> kept
                  | Some oc \<Rightarrow>
                      if oc = [] then kept
                      else sortWith (compareRows rt (normalizeIdent (filter (\<lambda>x. x \<noteq> CHR 0x60) oc))
                                       orderDir) kept);
               cut = drop offsetN sorted
           in Some (case limitN of None \<Rightarrow> cut | Some n \<Rightarrow> take n cut)))"



















section \<open>Sequences of INSERT and DELETE statements\<close>

text \<open>
  An \<^verbatim>\<open>INSERT\<close> or \<^verbatim>\<open>DELETE\<close> statement by its captures, and what
  \<^verbatim>\<open>runStatement\<close> does with it: the statement is evaluated on a copy of the engine
  and the copy becomes the engine; when the evaluation throws, the engine stays as it
  was. (The statement text that \<^verbatim>\<open>runStatement\<close> appends to the history, which no
  executor reads, is left out.)
\<close>

datatype statement =
    InsertInto string "string option" string
  | DeleteFrom string "string option"

fun statementTable :: "statement \<Rightarrow> string" where
  "statementTable (InsertInto tableName colsCapture valsPart) = tableName"
| "statementTable (DeleteFrom tableName whereStr) = tableName"

fun execute :: "runtime \<Rightarrow> engine \<Rightarrow> statement \<Rightarrow> (engine \<times> string) option" where
  "execute rt e (InsertInto tableName colsCapture valsPart) =
     Some (insertInto rt e tableName colsCapture valsPart)"
| "execute rt e (DeleteFrom tableName whereStr) = deleteFrom rt e tableName whereStr"

definition applyStatement :: "runtime \<Rightarrow> engine \<Rightarrow> statement \<Rightarrow> engine" where
  "applyStatement rt e s = (case execute rt e s of None \<Rightarrow> e | Some (e', out) \<Rightarrow> e')"

fun runAll :: "runtime \<Rightarrow> engine \<Rightarrow> statement list \<Rightarrow> engine" where
  "runAll rt e [] = e"
| "runAll rt e (s # ss) = runAll rt (applyStatement rt e s) ss"

section \<open>A runtime for the worked examples\<close>

text \<open>
  The examples below need the conversions of the host language on a few inputs. This
  runtime converts the blank text to 0, the decimals with or without a minus sign to
  their number and the texts that begin with a letter to \<^verbatim>\<open>NaN\<close>, renders the
  natural numbers in decimal, and accepts no pattern; the examples use it on such inputs
  only.
\<close>

function showNat :: "nat \<Rightarrow> string" where
  "showNat n =
     (if n < 10 then [''0123456789'' ! n]
      else showNat (n div 10) @ [''0123456789'' ! (n mod 10)])"
  by pat_completeness auto
termination
  by (relation "measure id") auto

declare showNat.simps [simp del]

definition decimalRuntime :: runtime where
  "decimalRuntime =
     \<lparr> StringToNumber = (\<lambda>s. if trim s = [] then Some 0
                              else if isUnsignedNumber (trim s) then Some (digitsNumber (trim s))
                              else if hd (trim s) = CHR ''-'' \<and> isUnsignedNumber (tl (trim s))
                              then Some (- digitsNumber (tl (trim s)))
                              else None),
       NumberToString = (\<lambda>n. showNat (nat \<lfloor>n\<rfloor>)),
       RegExpTest = (\<lambda>p s. None) \<rparr>"

section \<open>Notions the properties are stated with\<close>

subsection \<open>Shapes of WHERE clauses\<close>

text \<open>
  A comparison is three tokens: a value (a quoted text or a word), an operator and a
  value. A group is a chain of comparisons joined by one \<^verbatim>\<open>AND\<close> token, a clause
  a chain of groups joined by one \<^verbatim>\<open>OR\<close> token. \<open>andNode\<close> and \<open>orNode\<close> are
  the left-leaning trees over them.
\<close>

type_synonym comparison = "token \<times> token \<times> token"
type_synonym andGroup = "comparison \<times> comparison list"

definition isValueTok :: "token \<Rightarrow> bool" where
  "isValueTok t = (ttype t = string_t \<or> ttype t = word_t)"

definition valueNode :: "token \<Rightarrow> expr" where
  "valueNode t = fst (parseValue [t])"

definition wellFormedComp :: "comparison \<Rightarrow> bool" where
  "wellFormedComp c =
     (case c of (l, opr, r) \<Rightarrow> isValueTok l \<and> upper (tvalue opr) \<in> set compOps \<and> isValueTok r)"

definition compTokens :: "comparison \<Rightarrow> token list" where
  "compTokens c = (case c of (l, opr, r) \<Rightarrow> [l, opr, r])"

definition compNode :: "comparison \<Rightarrow> expr" where
  "compNode c = (case c of (l, opr, r) \<Rightarrow> Comp (upper (tvalue opr)) (valueNode l) (valueNode r))"

definition isAndTok :: "token \<Rightarrow> bool" where
  "isAndTok t = (ttype t = word_t \<and> upper (tvalue t) = ''AND'')"

definition isOrTok :: "token \<Rightarrow> bool" where
  "isOrTok t = (ttype t = word_t \<and> upper (tvalue t) = ''OR'')"

definition andTokens :: "token \<Rightarrow> andGroup \<Rightarrow> token list" where
  "andTokens a g = compTokens (fst g) @ concat (map (\<lambda>c. a # compTokens c) (snd g))"

definition andNode :: "andGroup \<Rightarrow> expr" where
  "andNode g = foldl And (compNode (fst g)) (map compNode (snd g))"

definition wellFormedGroup :: "andGroup \<Rightarrow> bool" where
  "wellFormedGroup g = (wellFormedComp (fst g) \<and> list_all wellFormedComp (snd g))"

definition orTokens :: "token \<Rightarrow> token \<Rightarrow> andGroup \<Rightarrow> andGroup list \<Rightarrow> token list" where
  "orTokens a b g gs = andTokens a g @ concat (map (\<lambda>h. b # andTokens a h) gs)"

definition orNode :: "andGroup \<Rightarrow> andGroup list \<Rightarrow> expr" where
  "orNode g gs = foldl Or (andNode g) (map andNode gs)"


subsection \<open>Comparisons as the specification words them\<close>

text \<open>
  The ordering operators on two numbers, and on two values after \<^verbatim>\<open>Number\<close>:
  never satisfied when one of them is \<^verbatim>\<open>NaN\<close>.
\<close>

definition compareNumbers :: "string \<Rightarrow> rat \<Rightarrow> rat \<Rightarrow> bool" where
  "compareNumbers opr a b =
     (if opr = ''<'' then a < b else if opr = ''>'' then a > b
      else if opr = ''<='' then a \<le> b else a \<ge> b)"

definition numericComparison :: "runtime \<Rightarrow> string \<Rightarrow> val \<Rightarrow> val \<Rightarrow> bool" where
  "numericComparison rt opr l r =
     (case (Number rt l, Number rt r) of
        (Some a, Some b) \<Rightarrow> compareNumbers opr a b
      | _ \<Rightarrow> False)"

text \<open>
  The single coercion rule of the specification for \<^verbatim>\<open>=\<close>: when both operands
  parse as numbers (a number is one, a text is one when the host language converts it)
  they are compared as numbers, otherwise both are compared as text.
\<close>

definition specNumber :: "runtime \<Rightarrow> val \<Rightarrow> rat option" where
  "specNumber rt v = (case v of Num n \<Rightarrow> Some n | Str s \<Rightarrow> StringToNumber rt s | _ \<Rightarrow> None)"

definition coercionRuleEq :: "runtime \<Rightarrow> val \<Rightarrow> val \<Rightarrow> bool" where
  "coercionRuleEq rt l r =
     (case (specNumber rt l, specNumber rt r) of
        (Some a, Some b) \<Rightarrow> a = b
      | _ \<Rightarrow> String rt l = String rt r)"

text \<open>
  What the code does instead: a \<^verbatim>\<open>null\<close> or missing operand equals only another
  one, two texts are compared as texts, and the rule decides the rest.
\<close>

fun isStr :: "val \<Rightarrow> bool" where
  "isStr (Str s) = True"
| "isStr v = False"

fun isBool :: "val \<Rightarrow> bool" where
  "isBool (Bool b) = True"
| "isBool v = False"

definition amendedEq :: "runtime \<Rightarrow> val \<Rightarrow> val \<Rightarrow> bool" where
  "amendedEq rt l r =
     (if isNullish l \<or> isNullish r then isNullish l \<and> isNullish r
      else if isStr l \<and> isStr r then l = r
      else coercionRuleEq rt l r)"

text \<open>The text of a number converts back to the number, as it does in the host language.\<close>

definition rendersBack :: "runtime \<Rightarrow> val \<Rightarrow> bool" where
  "rendersBack rt v =
     (case v of Num n \<Rightarrow> StringToNumber rt (NumberToString rt n) = Some n | _ \<Rightarrow> True)"

subsection \<open>A store for the worked examples\<close>

text \<open>
  The database \<^verbatim>\<open>school\<close> with the table
  \<^verbatim>\<open>t (id INT PRIMARY KEY AUTO_INCREMENT, name VARCHAR(50))\<close> after
  \<^verbatim>\<open>INSERT INTO t (name) VALUES ('Alice'),('Bob')\<close>.
\<close>

definition sampleTable :: table where
  "sampleTable =
     \<lparr> columns = [\<lparr> name = ''id'', ctype = ''INT'', auto = True, pk = True \<rparr>,
                  \<lparr> name = ''name'', ctype = ''VARCHAR(50)'', auto = False, pk = False \<rparr>],
       rows = [[(''id'', Num 1), (''name'', Str ''Alice'')],
               [(''id'', Num 2), (''name'', Str ''Bob'')]] \<rparr>"

definition sampleStore :: engine where
  "sampleStore =
     \<lparr> databases = [(''school'', \<lparr> tables = [(''t'', sampleTable)] \<rparr>)],
       currentDB = Some ''school'',
       history = [],
       autoinc = [(''school.t.id'', 3)] \<rparr>"

subsection \<open>The width of a grid column as the specification words it\<close>







subsection \<open>Order columns\<close>

text \<open>
  Whether a value is a number; the number or the text a row holds in a column, for rows
  whose values in that column are all numbers or all texts.
\<close>

fun isNum :: "val \<Rightarrow> bool" where
  "isNum (Num n) = True"
| "isNum v = False"

definition numKey :: "string \<Rightarrow> row \<Rightarrow> rat" where
  "numKey c r = (case rowGet r c of Num n \<Rightarrow> n | _ \<Rightarrow> 0)"

definition strKey :: "string \<Rightarrow> row \<Rightarrow> string" where
  "strKey c r = (case rowGet r c of Str s \<Rightarrow> s | _ \<Rightarrow> [])"

text \<open>
  Rows with a \<^verbatim>\<open>null\<close> name, and rows whose names are a text and a number.
\<close>

definition sparseRows :: "row list" where
  "sparseRows = [[(''id'', Num 1), (''name'', Str ''Alice'')], [(''id'', Num 2), (''name'', Null)]]"

definition mixedRows :: "row list" where
  "mixedRows = [[(''id'', Num 1), (''name'', Str ''abc'')], [(''id'', Num 2), (''name'', Num 5)]]"

subsection \<open>Values issued by the auto-increment counters\<close>

text \<open>The values \<open>c\<close>, \<open>c + 1\<close>, ... (\<open>m\<close> of them).\<close>

definition consecutive :: "rat \<Rightarrow> nat \<Rightarrow> val list" where
  "consecutive c m = map (\<lambda>i. Num (c + of_nat i)) [0..<m]"

text \<open>
  The table the executors find under a name: the one of the selected database, if the
  engine has a database selected and the database has the table.
\<close>

definition currentTable :: "engine \<Rightarrow> string \<Rightarrow> table option" where
  "currentTable e tableName =
     (case ensureDB e of
        Inl err \<Rightarrow> None
      | Inr (d, db) \<Rightarrow> map_of (tables db) tableName)"

text \<open>
  The rows of the value tuples of an \<^verbatim>\<open>INSERT\<close> statement as \<open>buildRow\<close> makes
  them, before an auto-increment column is filled, up to the first tuple of the wrong
  arity (where the loop of \<^verbatim>\<open>insertInto\<close> returns). A \<^verbatim>\<open>DELETE\<close> has none.
\<close>

fun rowsBuilt :: "(string + row) list \<Rightarrow> row list" where
  "rowsBuilt [] = []"
| "rowsBuilt (Inl err # xs) = []"
| "rowsBuilt (Inr r # xs) = r # rowsBuilt xs"

fun tupleRows :: "table \<Rightarrow> statement \<Rightarrow> row list" where
  "tupleRows t (DeleteFrom tableName whereStr) = []"
| "tupleRows t (InsertInto tableName colsCapture valsPart) =
     rowsBuilt (map (buildRow (insertColumns colsCapture) (map name (columns t)))
                  (parseValuesList valsPart))"

text \<open>
  The rows a statement has stored: those the table of the statement holds in the engine
  after the statement, behind the rows it held before.
\<close>

definition storedRows :: "runtime \<Rightarrow> engine \<Rightarrow> statement \<Rightarrow> row list" where
  "storedRows rt e s =
     (case currentTable e (statementTable s) of
        None \<Rightarrow> []
      | Some t \<Rightarrow>
          (case currentTable (applyStatement rt e s) (statementTable s) of
             None \<Rightarrow> []
           | Some t' \<Rightarrow> drop (length (rows t)) (rows t')))"

text \<open>
  The values issued to the column \<open>col\<close>: what the stored rows hold in \<open>col\<close>, for
  the tuples whose row left \<open>col\<close> \<^verbatim>\<open>null\<close> or \<^verbatim>\<open>undefined\<close>. They are read
  from the table in the engine the statement leaves; \<open>issuedAll\<close> collects them along
  a sequence of statements, each run on the engine its predecessors left.
\<close>

definition filled :: "string \<Rightarrow> row list \<Rightarrow> row list \<Rightarrow> val list" where
  "filled col before after =
     map (\<lambda>(r, r'). rowGet r' col) (filter (\<lambda>(r, r'). isNullish (rowGet r col)) (zip before after))"

definition issuedBy :: "runtime \<Rightarrow> engine \<Rightarrow> statement \<Rightarrow> string \<Rightarrow> val list" where
  "issuedBy rt e s col =
     (case currentTable e (statementTable s) of
        None \<Rightarrow> []
      | Some t \<Rightarrow> filled col (tupleRows t s) (storedRows rt e s))"

fun issuedAll :: "runtime \<Rightarrow> engine \<Rightarrow> statement list \<Rightarrow> string \<Rightarrow> val list" where
  "issuedAll rt e [] col = []"
| "issuedAll rt e (s # ss) col = issuedBy rt e s col @ issuedAll rt (applyStatement rt e s) ss col"

text \<open>
  The number of fields of the column the tuples of a statement, and of a sequence of
  statements, leave to fill. It depends on the columns of the table and on the statements
  only.
\<close>

definition toFill :: "string \<Rightarrow> row list \<Rightarrow> nat" where
  "toFill col rs = length (filter (\<lambda>r. isNullish (rowGet r col)) rs)"

definition toIssue :: "table \<Rightarrow> string \<Rightarrow> statement list \<Rightarrow> nat" where
  "toIssue t col stmts = sum_list (map (\<lambda>s. toFill col (tupleRows t s)) stmts)"

text \<open>
  The store of the examples with the counter of \<^verbatim>\<open>id\<close> at \<open>2 ^ 53\<close>.
\<close>

definition limitStore :: engine where
  "limitStore = sampleStore\<lparr>autoinc := [(''school.t.id'', 9007199254740992)]\<rparr>"

section \<open>Properties\<close>

subsection \<open>Evaluation of the examples\<close>

lemmas lexer_defs = isSpace_def isQuote_def isPunct_def isWordChar_def

lemmas parser_defs = parseWhere_def parseOr_def parseAnd_def parseComp_def upper_def
  upperChar_def compOps_def isUnsignedNumber_def isInteger_def isDecimal_def isDigit_def
  digitsNumber_def natOfDigits_def digitVal_def normalizeIdent_def

subsection \<open>The addition of the floats\<close>

text \<open>
  The binary exponent brackets the number, the rounding moves a number by at most half a
  unit of its last place, and the sum of a natural number below \<open>2 ^ 53\<close> and 1 is
  exact; at \<open>2 ^ 53\<close> the sum is the number itself.
\<close>

lemma pow2_pos: "0 < pow2 k" by (simp add: pow2_def)

lemma quotient_of_nat: "quotient_of (of_nat m) = (int m, 1)"
proof -
  have "(of_nat m :: rat) = Fract (int m) 1" by (simp add: of_int_rat [symmetric])
  then show ?thesis by (simp add: quotient_of_Fract)
qed

lemma roundHalfEven_int: "roundHalfEven (of_int j) = j"
  by (simp add: roundHalfEven_def)

lemma binaryExponent_nat:
  assumes "0 < m"
  shows "binaryExponent (of_nat m) = bitlen (int m) - 1"
proof -
  have b: "2 ^ nat (bitlen (int m) - 1) \<le> int m" using bitlen_bounds [of "int m"] assms by simp
  have p: "1 \<le> bitlen (int m)" using assms by (simp add: bitlen_alt_def)
  have "bitlen 1 = 1" by (simp add: bitlen_alt_def)
  have "pow2 (bitlen (int m) - 1) = of_int (2 ^ nat (bitlen (int m) - 1))"
    using p by (simp add: pow2_def)
  also have "\<dots> \<le> of_int (int m)" using b by (simp only: of_int_le_iff)
  finally have "pow2 (bitlen (int m) - 1) \<le> of_nat m" by simp
  then show ?thesis
    by (simp add: binaryExponent_def quotient_of_nat \<open>bitlen 1 = 1\<close>)
qed

lemma roundFloat_nat:
  assumes "0 < m" and "m \<le> 2 ^ 53"
  shows "roundFloat (of_nat m) = of_nat m"
proof -
  define l where "l = bitlen (int m) - 1"
  define k where "k = l - 52"
  have b: "2 ^ nat l \<le> int m" using bitlen_bounds [of "int m"] assms by (simp add: l_def)
  have p: "0 \<le> l" using assms by (simp add: bitlen_alt_def l_def)
  have e: "binaryExponent (of_nat m) - 52 = k"
    by (simp only: binaryExponent_nat [OF assms(1)] l_def k_def)
  have mi: "int m \<le> 2 ^ 53" using assms(2) by simp
  have q: "(2::int) ^ nat l \<le> 2 ^ 53" using b mi by (rule order_trans)
  have "nat l \<le> 53"
  proof (rule power_le_imp_le_exp)
    show "(1::int) < 2" by simp
    show "(2::int) ^ nat l \<le> 2 ^ 53" by (rule q)
  qed
  then have u: "l \<le> 53" using p by linarith
  have n: "(of_nat m :: rat) \<noteq> 0" using assms by simp
  have r: "roundFloat (of_nat m) = of_int (roundHalfEven (of_nat m / pow2 k)) * pow2 k"
    using n by (simp add: roundFloat_def e Let_def)
  show ?thesis
  proof (cases "l \<le> 52")
    case True
    define j where "j = nat (52 - l)"
    have k: "pow2 k = 1 / 2 ^ j"
      using True by (cases "l = 52") (simp_all add: pow2_def j_def k_def)
    have "of_nat m / pow2 k = (of_int (int m * 2 ^ j) :: rat)" by (simp add: k)
    then have "roundHalfEven (of_nat m / pow2 k) = int m * 2 ^ j"
      by (simp only: roundHalfEven_int)
    then show ?thesis by (simp add: r k)
  next
    case False
    with u have l: "l = 53" by linarith
    have "(2::int) ^ 53 \<le> int m" using b l by simp
    with mi have "int m = 2 ^ 53" by (rule order_antisym)
    then have m: "m = 2 ^ 53" by simp
    have k: "pow2 k = 2" by (simp add: l pow2_def k_def)
    have "of_nat m / pow2 k = (of_int (2 ^ 52) :: rat)" by (simp add: k m)
    then have h: "roundHalfEven (of_nat m / pow2 k) = 2 ^ 52"
      by (simp only: roundHalfEven_int)
    have "roundFloat (of_nat m) = of_int (2 ^ 52) * pow2 k" by (simp only: r h)
    also have "\<dots> = of_nat m" by (simp add: k m)
    finally show ?thesis .
  qed
qed

lemma plusOne_nat:
  assumes "n < 2 ^ 53"
  shows "plusOne (of_nat n) = of_nat n + 1"
proof -
  have "roundFloat (of_nat (Suc n)) = of_nat (Suc n)"
    using assms by (intro roundFloat_nat) simp_all
  then show ?thesis by (simp add: plusOne_def add.commute)
qed

lemma plusOne_3: "plusOne 3 = 4"
  using plusOne_nat [of 3] by simp

lemma plusOne_limit: "plusOne 9007199254740992 = 9007199254740992"
  by code_simp


lemma pow2_powi: "pow2 k = 2 powi k"
  by (simp add: pow2_def power_int_def inverse_eq_divide power_one_over)

lemma binaryExponent_bounds:
  assumes "x \<noteq> 0"
  shows "pow2 (binaryExponent x) \<le> \<bar>x\<bar> \<and> \<bar>x\<bar> < pow2 (binaryExponent x + 1)"
proof -
  obtain n d where q: "quotient_of \<bar>x\<bar> = (n, d)" by (cases "quotient_of \<bar>x\<bar>")
  have d: "0 < d" using q by (rule quotient_of_denom_pos)
  have x: "\<bar>x\<bar> = of_int n / of_int d" using q by (rule quotient_of_div)
  have "0 < \<bar>x\<bar>" using assms by simp
  then have n: "0 < n" using d by (simp add: x zero_less_divide_iff)
  define l where "l = bitlen n - bitlen d"
  note bn = bitlen_bounds [OF n] and bd = bitlen_bounds [OF d]
  have pn: "1 \<le> bitlen n" using n by (simp add: bitlen_alt_def)
  have pd: "1 \<le> bitlen d" using d by (simp add: bitlen_alt_def)
  have n1: "(2::rat) powi (bitlen n - 1) \<le> of_int n"
  proof -
    have "(of_int (2 ^ nat (bitlen n - 1)) :: rat) \<le> of_int n" using bn by (simp only: of_int_le_iff)
    then show ?thesis using pn by (simp add: power_int_def)
  qed
  have n2: "of_int n < (2::rat) powi bitlen n"
  proof -
    have "(of_int n :: rat) < of_int (2 ^ nat (bitlen n))" using bn by (simp only: of_int_less_iff)
    then show ?thesis using pn by (simp add: power_int_def)
  qed
  have d1: "(2::rat) powi (bitlen d - 1) \<le> of_int d"
  proof -
    have "(of_int (2 ^ nat (bitlen d - 1)) :: rat) \<le> of_int d" using bd by (simp only: of_int_le_iff)
    then show ?thesis using pd by (simp add: power_int_def)
  qed
  have d2: "of_int d < (2::rat) powi bitlen d"
  proof -
    have "(of_int d :: rat) < of_int (2 ^ nat (bitlen d))" using bd by (simp only: of_int_less_iff)
    then show ?thesis using pd by (simp add: power_int_def)
  qed
  have dpos: "(0::rat) < of_int d" using d by simp
  have up: "\<bar>x\<bar> < 2 powi (l + 1)"
  proof -
    have "of_int n < (2::rat) powi bitlen n" by (rule n2)
    also have "\<dots> = 2 powi (l + 1) * 2 powi (bitlen d - 1)"
      by (simp add: l_def power_int_add [symmetric])
    also have "\<dots> \<le> 2 powi (l + 1) * of_int d"
      using d1 by (intro mult_left_mono) simp_all
    finally show ?thesis using dpos by (simp add: x pos_divide_less_eq)
  qed
  have lo: "2 powi (l - 1) \<le> \<bar>x\<bar>"
  proof -
    have "(2::rat) powi (l - 1) * of_int d \<le> 2 powi (l - 1) * 2 powi bitlen d"
      using d2 by (intro mult_left_mono) simp_all
    also have "\<dots> = 2 powi (bitlen n - 1)"
      by (simp add: l_def power_int_add [symmetric])
    also have "\<dots> \<le> of_int n" by (rule n1)
    finally show ?thesis using dpos by (simp add: x pos_le_divide_eq)
  qed
  have m: "(2::rat) powi l \<le> 2 powi (l + 1)" by (intro power_int_increasing) simp_all
  have e: "binaryExponent x = (if pow2 l \<le> \<bar>x\<bar> then l else l - 1)"
    by (simp add: binaryExponent_def q l_def Let_def)
  show ?thesis
  proof (cases "pow2 l \<le> \<bar>x\<bar>")
    case True
    then show ?thesis using up by (simp add: e pow2_powi)
  next
    case False
    then show ?thesis using lo by (simp add: e pow2_powi)
  qed
qed


lemma roundHalfEven_near: "\<bar>of_int (roundHalfEven y) - y\<bar> \<le> 1 / 2"
proof -
  have "of_int \<lfloor>y\<rfloor> \<le> y" "y < of_int \<lfloor>y\<rfloor> + 1" by linarith+
  then show ?thesis by (auto simp: roundHalfEven_def Let_def abs_le_iff)
qed

lemma roundFloat_near:
  "\<bar>roundFloat x - x\<bar> \<le> pow2 (binaryExponent x - 52) / 2"
proof (cases "x = 0")
  case True
  then show ?thesis using pow2_pos [of "binaryExponent x - 52"] by (simp add: roundFloat_def)
next
  case False
  define p where "p = pow2 (binaryExponent x - 52)"
  have p: "0 < p" by (simp add: p_def pow2_pos)
  have "roundFloat x - x = (of_int (roundHalfEven (x / p)) - x / p) * p"
    using False p by (simp add: roundFloat_def Let_def p_def algebra_simps)
  then have "\<bar>roundFloat x - x\<bar> = \<bar>of_int (roundHalfEven (x / p)) - x / p\<bar> * p"
    using p by (simp add: abs_mult)
  also have "\<dots> \<le> (1 / 2) * p"
    using p by (intro mult_right_mono roundHalfEven_near) simp
  finally show ?thesis by (simp add: p_def)
qed

subsection \<open>Precedence and associativity of AND and OR\<close>

lemma valueNode_parse: "parseValue (t # tok) = (valueNode t, tok)"
  by (simp add: valueNode_def)

lemma valueNode_not_null: "isValueTok t \<Longrightarrow> valueNode t \<noteq> NoExpr"
  by (auto simp: valueNode_def isValueTok_def)

lemma parseComp_comparison:
  assumes "wellFormedComp c"
  shows "parseComp (compTokens c @ rest) = (compNode c, rest)"
proof -
  obtain l opr r where c: "c = (l, opr, r)" by (cases c) auto
  from assms c have l: "valueNode l \<noteq> NoExpr" and o: "upper (tvalue opr) \<in> set compOps"
    by (auto simp: wellFormedComp_def valueNode_not_null)
  show ?thesis
    using l o by (simp add: c compTokens_def compNode_def parseComp_def valueNode_parse del: parseValue.simps)
qed

lemma parseAndLoop_chain:
  assumes a: "isAndTok a" and rest: "rest = [] \<or> \<not> isAndTok (hd rest)"
  shows "list_all wellFormedComp cs \<Longrightarrow>
         parseAndLoop node (concat (map (\<lambda>c. a # compTokens c) cs) @ rest)
           = (foldl And node (map compNode cs), rest)"
proof (induction cs arbitrary: node)
  case Nil
  from rest show ?case
    by (cases rest) (auto simp: isAndTok_def)
next
  case (Cons c cs)
  then have c: "wellFormedComp c" and cs: "list_all wellFormedComp cs" by simp_all
  have "parseAndLoop node (concat (map (\<lambda>c. a # compTokens c) (c # cs)) @ rest)
          = parseAndLoop node (a # (compTokens c @ (concat (map (\<lambda>c. a # compTokens c) cs) @ rest)))"
    by simp
  also have "\<dots> = parseAndLoop (And node (compNode c)) (concat (map (\<lambda>c. a # compTokens c) cs) @ rest)"
    using a by (simp add: isAndTok_def parseComp_comparison [OF c])
  also have "\<dots> = (foldl And (And node (compNode c)) (map compNode cs), rest)"
    by (rule Cons.IH [OF cs])
  finally show ?case by simp
qed

lemma parseAnd_group:
  assumes "isAndTok a" and "rest = [] \<or> \<not> isAndTok (hd rest)" and "wellFormedGroup g"
  shows "parseAnd (andTokens a g @ rest) = (andNode g, rest)"
proof -
  from assms(3) have c: "wellFormedComp (fst g)" and cs: "list_all wellFormedComp (snd g)"
    by (simp_all add: wellFormedGroup_def)
  show ?thesis
    by (simp add: parseAnd_def andTokens_def andNode_def parseComp_comparison [OF c]
        parseAndLoop_chain [OF assms(1) assms(2) cs])
qed

lemma or_not_and: "isOrTok b \<Longrightarrow> \<not> isAndTok b"
  by (auto simp: isOrTok_def isAndTok_def)

lemma parseOrLoop_chain:
  assumes a: "isAndTok a" and b: "isOrTok b"
  shows "list_all wellFormedGroup gs \<Longrightarrow>
         parseOrLoop node (concat (map (\<lambda>h. b # andTokens a h) gs))
           = (foldl Or node (map andNode gs), [])"
proof (induction gs arbitrary: node)
  case Nil
  show ?case by simp
next
  case (Cons g gs)
  then have g: "wellFormedGroup g" and gs: "list_all wellFormedGroup gs" by simp_all
  let ?rest = "concat (map (\<lambda>h. b # andTokens a h) gs)"
  have rest: "?rest = [] \<or> \<not> isAndTok (hd ?rest)"
    using or_not_and [OF b] by (cases gs) auto
  have "parseOrLoop node (concat (map (\<lambda>h. b # andTokens a h) (g # gs)))
          = parseOrLoop node (b # (andTokens a g @ ?rest))"
    by simp
  also have "\<dots> = parseOrLoop (Or node (andNode g)) ?rest"
    using b by (simp add: isOrTok_def parseAnd_group [OF a rest g])
  also have "\<dots> = (foldl Or (Or node (andNode g)) (map andNode gs), [])"
    by (rule Cons.IH [OF gs])
  finally show ?case by simp
qed


text \<open>
  C4: \<^verbatim>\<open>AND\<close> binds tighter than \<^verbatim>\<open>OR\<close> and both associate to the left. A
  clause whose tokens are groups of comparisons joined by \<^verbatim>\<open>OR\<close>, each group
  comparisons joined by \<^verbatim>\<open>AND\<close>, parses to the left-leaning \<^verbatim>\<open>or\<close> tree of the
  left-leaning \<^verbatim>\<open>and\<close> trees of its groups; for \<^verbatim>\<open>a=1 OR a=2 AND b=3\<close> that is
  \<^verbatim>\<open>or(comp(a,1), and(comp(a,2), comp(b,3)))\<close>.
\<close>

theorem where_precedence:
  assumes "isAndTok a" and "isOrTok b"
    and "wellFormedGroup g" and "list_all wellFormedGroup gs"
    and "tokenize s = orTokens a b g gs"
  shows "parseWhere (Some s) = orNode g gs"
proof -
  let ?rest = "concat (map (\<lambda>h. b # andTokens a h) gs)"
  have rest: "?rest = [] \<or> \<not> isAndTok (hd ?rest)"
    using or_not_and [OF assms(2)] by (cases gs) auto
  have ne: "orTokens a b g gs \<noteq> []"
    by (cases "fst g") (simp add: orTokens_def andTokens_def compTokens_def)
  with assms(5) have s: "s \<noteq> []" by auto
  have "parseOr (orTokens a b g gs) = (orNode g gs, [])"
    by (simp add: parseOr_def orTokens_def orNode_def parseAnd_group [OF assms(1) rest assms(3)]
        parseOrLoop_chain [OF assms(1) assms(2) assms(4)])
  with s assms(5) show ?thesis by (simp add: parseWhere_def)
qed


theorem where_precedence_witness:
  "isAndTok (Token word_t ''AND'') \<and> isOrTok (Token word_t ''OR'')
   \<and> tokenize ''a=1 OR a=2 AND b=3''
       = orTokens (Token word_t ''AND'') (Token word_t ''OR'')
           ((Token word_t ''a'', Token sym_t ''='', Token word_t ''1''), [])
           [((Token word_t ''a'', Token sym_t ''='', Token word_t ''2''),
             [(Token word_t ''b'', Token sym_t ''='', Token word_t ''3'')])]
   \<and> parseWhere (Some ''a=1 OR a=2 AND b=3'') =
       Or (Comp ''='' (Identifier ''a'') (Literal (Num 1)))
          (And (Comp ''='' (Identifier ''a'') (Literal (Num 2)))
               (Comp ''='' (Identifier ''b'') (Literal (Num 3))))"
proof -
  let ?c = "\<lambda>x y. (Token word_t x, Token sym_t ''='', Token word_t y)"
  let ?g = "(?c ''a'' ''1'', [])" and ?gs = "[(?c ''a'' ''2'', [?c ''b'' ''3''])]"
  have a: "isAndTok (Token word_t ''AND'')"
    by (simp add: isAndTok_def upper_def upperChar_def)
  have b: "isOrTok (Token word_t ''OR'')"
    by (simp add: isOrTok_def upper_def upperChar_def)
  have g: "wellFormedGroup ?g"
    by (simp add: wellFormedGroup_def wellFormedComp_def isValueTok_def upper_def upperChar_def
          compOps_def)
  have gs: "list_all wellFormedGroup ?gs"
    by (simp add: wellFormedGroup_def wellFormedComp_def isValueTok_def upper_def upperChar_def
          compOps_def)
  have t: "tokenize ''a=1 OR a=2 AND b=3''
             = orTokens (Token word_t ''AND'') (Token word_t ''OR'') ?g ?gs"
    by (simp add: orTokens_def andTokens_def compTokens_def lexer_defs)
  have "parseWhere (Some ''a=1 OR a=2 AND b=3'') = orNode ?g ?gs"
    by (rule where_precedence [OF a b g gs t])
  then have "parseWhere (Some ''a=1 OR a=2 AND b=3'') =
       Or (Comp ''='' (Identifier ''a'') (Literal (Num 1)))
          (And (Comp ''='' (Identifier ''a'') (Literal (Num 2)))
               (Comp ''='' (Identifier ''b'') (Literal (Num 3))))"
    by (simp add: orNode_def andNode_def compNode_def valueNode_def upper_def parser_defs)
  with a b t show ?thesis by blast
qed

subsection \<open>Bare words in a value position\<close>

lemma word_tokens: "t \<in> set (tokenize s) \<Longrightarrow> ttype t = word_t \<Longrightarrow> list_all isWordChar (tvalue t)"
proof (induction s rule: tokenize.induct)
  case 1
  then show ?case by simp
next
  case (2 ch cs)
  show ?case
  proof (cases "isSpace ch")
    case True
    with 2 show ?thesis by simp
  next
    case sp: False
    show ?thesis
    proof (cases "isQuote ch")
      case True
      with sp 2 show ?thesis by auto
    next
      case q: False
      show ?thesis
      proof (cases "isPunct ch")
        case True
        with sp q 2 show ?thesis by (auto split: if_splits)
      next
        case p: False
        have "list_all isWordChar (takeWhile isWordChar cs)"
          by (simp add: list_all_iff) (meson set_takeWhileD)
        moreover from sp q p have "isWordChar ch" by (simp add: isWordChar_def)
        ultimately show ?thesis using sp q p 2 by auto
      qed
    qed
  qed
qed

lemma normalizeIdent_word: "list_all isWordChar x \<Longrightarrow> normalizeIdent x = x"
proof -
  assume a: "list_all isWordChar x"
  have b: "CHR 0x60 \<notin> set x"
  proof
    assume "CHR 0x60 \<in> set x"
    with a have "isWordChar (CHR 0x60)" by (simp add: list_all_iff)
    then show False by (simp add: isWordChar_def isQuote_def)
  qed
  show ?thesis
  proof (cases x)
    case Nil
    then show ?thesis by (simp add: normalizeIdent_def)
  next
    case (Cons c cs)
    with b have "hd x \<noteq> CHR 0x60" by auto
    moreover from b Cons have "last x \<noteq> CHR 0x60" by (metis last_in_set list.distinct(1))
    ultimately show ?thesis by (simp add: normalizeIdent_def Let_def)
  qed
qed

text \<open>
  C5: a bare word in a value position of a WHERE clause that does not match the unsigned
  numeric pattern is parsed to an identifier node naming that word, never to a literal,
  and the node evaluates to the row's value for the column of that name; so
  \<^verbatim>\<open>WHERE course=BSIT\<close> compares the course with the row's value for a column named
  \<^verbatim>\<open>BSIT\<close>, not with the text.
\<close>

theorem bare_word_is_identifier:
  assumes "t \<in> set (tokenize s)" and "ttype t = word_t" and "\<not> isUnsignedNumber (tvalue t)"
  shows "parseValue (t # tok) = (Identifier (tvalue t), tok)
       \<and> (\<forall>v. fst (parseValue (t # tok)) \<noteq> Literal v)
       \<and> evalExpr rt r (fst (parseValue (t # tok))) = Some (rowGet r (tvalue t))"
proof -
  have "normalizeIdent (tvalue t) = tvalue t"
    using word_tokens [OF assms(1) assms(2)] by (rule normalizeIdent_word)
  with assms(2,3) show ?thesis by simp
qed




theorem bare_word_is_identifier_witness:
  "Token word_t ''BSIT'' \<in> set (tokenize ''course=BSIT'')
   \<and> \<not> isUnsignedNumber ''BSIT''
   \<and> parseValue [Token word_t ''BSIT''] = (Identifier ''BSIT'', [])
   \<and> parseWhere (Some ''course=BSIT'') = Comp ''='' (Identifier ''course'') (Identifier ''BSIT'')
   \<and> evalExpr decimalRuntime [(''course'', Str ''BSIT'')] (parseWhere (Some ''course=BSIT''))
       = Some (Bool False)
   \<and> evalExpr decimalRuntime [(''course'', Str ''x''), (''BSIT'', Str ''x'')]
        (parseWhere (Some ''course=BSIT'')) = Some (Bool True)"
proof -
  have a: "Token word_t ''BSIT'' \<in> set (tokenize ''course=BSIT'')"
    by (simp add: isSpace_def isQuote_def isPunct_def isWordChar_def)
  have b: "\<not> isUnsignedNumber (tvalue (Token word_t ''BSIT''))"
    by (simp add: isUnsignedNumber_def isInteger_def isDecimal_def isDigit_def)
  have c: "ttype (Token word_t ''BSIT'') = word_t" by simp
  have v: "parseValue [Token word_t ''BSIT''] = (Identifier ''BSIT'', [])"
    using bare_word_is_identifier [OF a c b, of "[]"] by simp
  have p: "parseWhere (Some ''course=BSIT'') = Comp ''='' (Identifier ''course'') (Identifier ''BSIT'')"
    by (simp add: lexer_defs parser_defs)
  have e: "evalExpr decimalRuntime [(''course'', Str ''BSIT'')] (parseWhere (Some ''course=BSIT''))
       = Some (Bool False)
   \<and> evalExpr decimalRuntime [(''course'', Str ''x''), (''BSIT'', Str ''x'')]
        (parseWhere (Some ''course=BSIT'')) = Some (Bool True)"
    by (simp add: p rowGet_def normalizeIdent_def)
  from a b v p e show ?thesis by simp
qed


subsection \<open>The ordering operators\<close>

text \<open>
  C7: for the operators \<^verbatim>\<open><\<close>, \<^verbatim>\<open>>\<close>, \<^verbatim>\<open><=\<close> and \<^verbatim>\<open>>=\<close> both operands are
  converted to numbers and the numbers are compared; when either operand converts to
  \<^verbatim>\<open>NaN\<close> the comparison is false.
\<close>

theorem order_comparison_numeric:
  assumes "opr \<in> set [''<'', ''>'', ''<='', ''>='']"
    and "evalExpr rt r left = Some lv" and "evalExpr rt r right = Some rv"
  shows "evalExpr rt r (Comp opr left right) = Some (Bool (numericComparison rt opr lv rv))
       \<and> (Number rt lv = None \<or> Number rt rv = None
            \<longrightarrow> evalExpr rt r (Comp opr left right) = Some (Bool False))"
  using assms
  by (auto simp: numericComparison_def compareNumbers_def numLess_def numLessEq_def
           split: option.splits)

theorem order_comparison_numeric_witness:
  "''<'' \<in> set [''<'', ''>'', ''<='', ''>='']
   \<and> evalExpr decimalRuntime [(''age'', Str ''abc'')] (Identifier ''age'') = Some (Str ''abc'')
   \<and> evalExpr decimalRuntime [(''age'', Str ''abc'')] (Literal (Num 21)) = Some (Num 21)
   \<and> Number decimalRuntime (Str ''abc'') = None
   \<and> evalExpr decimalRuntime [(''age'', Str ''abc'')]
        (Comp ''<'' (Identifier ''age'') (Literal (Num 21))) = Some (Bool False)"
proof -
  have a: "''<'' \<in> set [''<'', ''>'', ''<='', ''>='']" by simp
  have b: "evalExpr decimalRuntime [(''age'', Str ''abc'')] (Identifier ''age'') = Some (Str ''abc'')"
    by (simp add: rowGet_def normalizeIdent_def)
  have c: "evalExpr decimalRuntime [(''age'', Str ''abc'')] (Literal (Num 21)) = Some (Num 21)"
    by simp
  have d: "Number decimalRuntime (Str ''abc'') = None"
    by (simp add: decimalRuntime_def trim_def isSpace_def isUnsignedNumber_def isInteger_def
          isDecimal_def isDigit_def)
  from order_comparison_numeric [OF a b c] d
  have "evalExpr decimalRuntime [(''age'', Str ''abc'')]
          (Comp ''<'' (Identifier ''age'') (Literal (Num 21))) = Some (Bool False)"
    by blast
  with a b c d show ?thesis by blast
qed


subsection \<open>Literals that begin with a minus sign\<close>

text \<open>
  C9, as amended: a trimmed literal token that begins with a minus sign is returned as a
  text, never as a number; the text is the token itself, except that a backtick at its
  end is removed. Negative numbers are therefore stored as texts. (How they compare
  later depends on the operator: the ordering operators of a WHERE clause convert them
  to numbers, as the last lines of the counterexample show.)
\<close>

theorem minus_literal_is_text:
  assumes "tk \<noteq> []" and "hd tk = CHR ''-''" and "trim tk = tk"
  shows "parseLiteral tk = Str (if last tk = CHR 0x60 then butlast tk else tk)"
proof -
  obtain cs where tk: "tk = CHR ''-'' # cs" using assms(1,2) by (cases tk) auto
  have u: "upper tk \<noteq> ''NULL''" by (simp add: tk upper_def upperChar_def)
  have q: "\<not> isQuotedBy (CHR 0x27) tk" "\<not> isQuotedBy (CHR 0x22) tk"
    by (simp_all add: tk isQuotedBy_def)
  have i: "\<not> isInteger tk" by (simp add: tk isInteger_def isDigit_def)
  have d: "\<not> isDecimal tk" by (simp add: tk isDecimal_def isDigit_def)
  have n: "normalizeIdent tk = (if last tk = CHR 0x60 then butlast tk else tk)"
    by (simp add: tk normalizeIdent_def)
  show ?thesis using u q i d n assms(3) by (simp add: parseLiteral_def)
qed

theorem minus_literal_is_text_witness:
  "''-5'' \<noteq> [] \<and> hd ''-5'' = CHR ''-'' \<and> trim ''-5'' = ''-5'' \<and> parseLiteral ''-5'' = Str ''-5''"
  using minus_literal_is_text [of "''-5''"]
  by (simp add: trim_def isSpace_def)

theorem minus_literal_unchanged_counterexample:
  "trim (''-5'' @ [CHR 0x60]) = ''-5'' @ [CHR 0x60]
   \<and> parseLiteral (''-5'' @ [CHR 0x60]) = Str ''-5''
   \<and> parseLiteral (''-5'' @ [CHR 0x60]) \<noteq> Str (''-5'' @ [CHR 0x60])
   \<and> parseLiteral ''-1'' = Str ''-1'' \<and> parseLiteral ''-10'' = Str ''-10''
   \<and> (''-1'' :: string) < ''-10''
   \<and> evalExpr decimalRuntime [(''a'', Str ''-1''), (''b'', Str ''-10'')] (parseWhere (Some ''a>b''))
       = Some (Bool True)"
proof -
  have 1: "trim (''-5'' @ [CHR 0x60]) = ''-5'' @ [CHR 0x60]
     \<and> parseLiteral (''-5'' @ [CHR 0x60]) = Str ''-5''
     \<and> parseLiteral (''-5'' @ [CHR 0x60]) \<noteq> Str (''-5'' @ [CHR 0x60])"
    by (simp add: parseLiteral_def trim_def isSpace_def upper_def upperChar_def isQuotedBy_def
          isInteger_def isDecimal_def isDigit_def normalizeIdent_def)
  have 2: "parseLiteral ''-1'' = Str ''-1'' \<and> parseLiteral ''-10'' = Str ''-10''"
    by (simp add: parseLiteral_def trim_def isSpace_def upper_def upperChar_def isQuotedBy_def
          isInteger_def isDecimal_def isDigit_def normalizeIdent_def)
  have 3: "(''-1'' :: string) < ''-10''" by simp
  have p: "parseWhere (Some ''a>b'') = Comp ''>'' (Identifier ''a'') (Identifier ''b'')"
    by (simp add: lexer_defs parser_defs)
  have n: "StringToNumber decimalRuntime ''-1'' = Some (- 1)"
          "StringToNumber decimalRuntime ''-10'' = Some (- 10)"
    by (simp_all add: decimalRuntime_def trim_def isSpace_def isUnsignedNumber_def isInteger_def
          isDecimal_def isDigit_def digitsNumber_def natOfDigits_def digitVal_def)
  have 4: "evalExpr decimalRuntime [(''a'', Str ''-1''), (''b'', Str ''-10'')] (parseWhere (Some ''a>b''))
       = Some (Bool True)"
    by (simp add: p rowGet_def normalizeIdent_def n numLess_def)
  from 1 2 3 4 show ?thesis by blast
qed

subsection \<open>Equality\<close>

lemma looseEq_amended:
  assumes "\<not> isBool l" "\<not> isBool r" "rendersBack rt l" "rendersBack rt r"
  shows "looseEq rt l r = amendedEq rt l r"
  using assms
  by (cases l; cases r)
     (auto simp: amendedEq_def isNullish_def coercionRuleEq_def specNumber_def rendersBack_def
           split: option.splits)

text \<open>
  C2, as amended: \<^verbatim>\<open>=\<close> on two operand values (numbers, texts, \<^verbatim>\<open>null\<close> or
  missing) is the loose equality of the host language. A \<^verbatim>\<open>null\<close> or missing
  operand equals only another one; two texts are equal only when they are the same text,
  also when both parse as numbers; in every other case the result is the coercion rule
  (numbers when both operands parse as numbers, texts otherwise). \<^verbatim>\<open>!=\<close> and
  \<^verbatim>\<open><>\<close> are the exact complement of \<^verbatim>\<open>=\<close>.
\<close>

theorem equality_coercion:
  assumes "evalExpr rt r left = Some lv" and "evalExpr rt r right = Some rv"
    and "\<not> isBool lv" and "\<not> isBool rv" and "rendersBack rt lv" and "rendersBack rt rv"
  shows "evalExpr rt r (Comp ''='' left right) = Some (Bool (amendedEq rt lv rv))
       \<and> evalExpr rt r (Comp ''!='' left right) = Some (Bool (\<not> amendedEq rt lv rv))
       \<and> evalExpr rt r (Comp ''<>'' left right) = Some (Bool (\<not> amendedEq rt lv rv))"
  using assms(1,2) looseEq_amended [OF assms(3-6)] by simp

theorem equality_coercion_witness:
  "evalExpr decimalRuntime [(''a'', Num 5)] (Identifier ''a'') = Some (Num 5)
   \<and> evalExpr decimalRuntime [(''a'', Num 5)] (Literal (Str ''5.0'')) = Some (Str ''5.0'')
   \<and> rendersBack decimalRuntime (Num 5) \<and> rendersBack decimalRuntime (Str ''5.0'')
   \<and> coercionRuleEq decimalRuntime (Num 5) (Str ''5.0'')
   \<and> evalExpr decimalRuntime [(''a'', Num 5)] (Comp ''='' (Identifier ''a'') (Literal (Str ''5.0'')))
       = Some (Bool True)
   \<and> evalExpr decimalRuntime [(''a'', Num 5)] (Comp ''!='' (Identifier ''a'') (Literal (Str ''5.0'')))
       = Some (Bool False)"
proof -
  have a: "evalExpr decimalRuntime [(''a'', Num 5)] (Identifier ''a'') = Some (Num 5)"
    by (simp add: rowGet_def normalizeIdent_def)
  have b: "evalExpr decimalRuntime [(''a'', Num 5)] (Literal (Str ''5.0'')) = Some (Str ''5.0'')"
    by simp
  have c: "\<not> isBool (Num 5)" "\<not> isBool (Str ''5.0'')" by simp_all
  have d: "rendersBack decimalRuntime (Num 5)"
    by (simp add: rendersBack_def decimalRuntime_def showNat.simps trim_def isSpace_def
          isUnsignedNumber_def isInteger_def isDigit_def digitsNumber_def natOfDigits_def
          digitVal_def)
  have e: "rendersBack decimalRuntime (Str ''5.0'')" by (simp add: rendersBack_def)
  have f: "coercionRuleEq decimalRuntime (Num 5) (Str ''5.0'')"
    by (simp add: coercionRuleEq_def specNumber_def decimalRuntime_def trim_def isSpace_def
          isUnsignedNumber_def isInteger_def isDecimal_def isDigit_def digitsNumber_def
          natOfDigits_def digitVal_def)
  have g: "amendedEq decimalRuntime (Num 5) (Str ''5.0'')"
    using f by (simp add: amendedEq_def isNullish_def)
  from equality_coercion [OF a b c d e] g a b d e f show ?thesis by simp
qed

theorem equality_coercion_counterexample:
  "parseWhere (Some ''a='1.0' '') = Comp ''='' (Identifier ''a'') (Literal (Str ''1.0''))
   \<and> evalExpr decimalRuntime [(''a'', Str ''1'')] (Comp ''='' (Identifier ''a'') (Literal (Str ''1.0'')))
       = Some (Bool False)
   \<and> specNumber decimalRuntime (Str ''1'') = Some 1
   \<and> specNumber decimalRuntime (Str ''1.0'') = Some 1
   \<and> coercionRuleEq decimalRuntime (Str ''1'') (Str ''1.0'')"
proof -
  have p: "parseWhere (Some ''a='1.0' '') = Comp ''='' (Identifier ''a'') (Literal (Str ''1.0''))"
    by (simp add: lexer_defs parser_defs)
  have e: "evalExpr decimalRuntime [(''a'', Str ''1'')] (Comp ''='' (Identifier ''a'') (Literal (Str ''1.0'')))
       = Some (Bool False)"
    by (simp add: rowGet_def normalizeIdent_def)
  have n: "specNumber decimalRuntime (Str ''1'') = Some 1" "specNumber decimalRuntime (Str ''1.0'') = Some 1"
    by (simp_all add: specNumber_def decimalRuntime_def trim_def isSpace_def
          isUnsignedNumber_def isInteger_def isDecimal_def isDigit_def digitsNumber_def
          natOfDigits_def digitVal_def)
  have c: "coercionRuleEq decimalRuntime (Str ''1'') (Str ''1.0'')"
    by (simp add: coercionRuleEq_def n)
  from p e n c show ?thesis by blast
qed

subsection \<open>Malformed SET segments\<close>






subsection \<open>Widths of the grid\<close>


















subsection \<open>Descending and ascending order\<close>

lemma set_insertSorted: "set (insertSorted cmp x ys) = insert x (set ys)"
  by (induction ys) auto

lemma set_sortWith: "set (sortWith cmp xs) = set xs"
  by (induction xs) (simp_all add: sortWith_def set_insertSorted)

lemma sortWith_Cons: "sortWith cmp (x # xs) = insertSorted cmp x (sortWith cmp xs)"
  by (simp add: sortWith_def)

lemma distinct_map_insertSorted:
  "distinct (map k (insertSorted cmp x ys)) = (k x \<notin> k ` set ys \<and> distinct (map k ys))"
  by (induction ys) (auto simp: set_insertSorted)

lemma distinct_map_sortWith: "distinct (map k (sortWith cmp xs)) = distinct (map k xs)"
  by (induction xs) (simp_all add: sortWith_Cons distinct_map_insertSorted set_sortWith, simp add: sortWith_def)

lemma sorted_wrt_insertSorted:
  assumes tot: "\<And>a b. R a b \<or> R b a" and tr: "\<And>a b c. R a b \<Longrightarrow> R b c \<Longrightarrow> R a c"
    and agree: "\<forall>y \<in> set ys. (cmp x y \<le> 0) = R (k x) (k y)"
  shows "sorted_wrt R (map k ys) \<Longrightarrow> sorted_wrt R (map k (insertSorted cmp x ys))"
  using agree
proof (induction ys)
  case Nil
  then show ?case by simp
next
  case (Cons y ys)
  show ?case
  proof (cases "cmp x y \<le> 0")
    case True
    with Cons.prems have xy: "R (k x) (k y)" by simp
    from Cons.prems(1) have "\<forall>z \<in> set ys. R (k y) (k z)" by simp
    with xy tr have "\<forall>z \<in> set ys. R (k x) (k z)" by blast
    with True xy Cons.prems(1) show ?thesis by simp
  next
    case False
    with Cons.prems have "\<not> R (k x) (k y)" by simp
    with tot have yx: "R (k y) (k x)" by blast
    from Cons.prems have "sorted_wrt R (map k (insertSorted cmp x ys))"
      by (intro Cons.IH) simp_all
    with False yx Cons.prems(1) show ?thesis by (simp add: set_insertSorted)
  qed
qed

lemma sorted_wrt_sortWith:
  assumes tot: "\<And>a b. R a b \<or> R b a" and tr: "\<And>a b c. R a b \<Longrightarrow> R b c \<Longrightarrow> R a c"
  shows "\<forall>x \<in> set xs. \<forall>y \<in> set xs. (cmp x y \<le> 0) = R (k x) (k y) \<Longrightarrow>
         sorted_wrt R (map k (sortWith cmp xs))"
proof (induction xs)
  case Nil
  show ?case by (simp add: sortWith_def)
next
  case (Cons x xs)
  then have ih: "sorted_wrt R (map k (sortWith cmp xs))" by simp
  from Cons.prems have "\<forall>y \<in> set (sortWith cmp xs). (cmp x y \<le> 0) = R (k x) (k y)"
    by (simp add: set_sortWith)
  from sorted_wrt_insertSorted [where R = R and cmp = cmp and k = k, OF tot tr this ih]
  show ?case by (simp add: sortWith_Cons)
qed

lemma sortWith_reverse:
  fixes k :: "'a \<Rightarrow> 'k::linorder"
  assumes asc: "\<forall>x \<in> set xs. \<forall>y \<in> set xs. (cA x y \<le> 0) = (k x \<le> k y)"
    and desc: "\<forall>x \<in> set xs. \<forall>y \<in> set xs. (cD x y \<le> 0) = (k y \<le> k x)"
    and dist: "distinct (map k xs)"
  shows "sortWith cD xs = rev (sortWith cA xs)"
proof -
  let ?a = "sortWith cA xs" and ?d = "sortWith cD xs"
  have sa: "sorted (map k ?a)"
    by (rule sorted_wrt_sortWith [where R = "(\<le>)"]) (use asc in auto)
  have "sorted_wrt (\<lambda>a b. b \<le> a) (map k ?d)"
    by (rule sorted_wrt_sortWith [where R = "\<lambda>a b. b \<le> a"]) (use desc in auto)
  then have sd: "sorted (map k (rev ?d))"
    by (simp add: rev_map [symmetric] sorted_wrt_rev)
  have da: "distinct (map k ?a)"
    using dist by (simp add: distinct_map_sortWith)
  have "distinct (rev (map k ?d))"
    using dist by (simp add: distinct_map_sortWith)
  then have dd: "distinct (map k (rev ?d))" by (simp only: rev_map)
  have "set (map k ?a) = set (map k (rev ?d))" by (simp add: set_sortWith)
  with sa sd da dd have "map k ?a = map k (rev ?d)"
    by (intro sorted_distinct_set_unique)
  moreover have "inj_on k (set ?a \<union> set (rev ?d))"
    using dist by (simp add: set_sortWith distinct_map)
  ultimately have "?a = rev ?d" by (simp add: inj_on_map_eq_map)
  then show ?thesis by simp
qed

lemma compareRows_num:
  assumes "isNum (rowGet a c)" and "isNum (rowGet b c)"
  shows "(compareRows rt c ''ASC'' a b \<le> 0) = (numKey c a \<le> numKey c b)"
    and "(compareRows rt c ''DESC'' a b \<le> 0) = (numKey c b \<le> numKey c a)"
  using assms
  by (cases "rowGet a c"; cases "rowGet b c";
      auto simp: compareRows_def isNullish_def jsLess_def numLess_def numKey_def)+

lemma compareRows_str:
  assumes "isStr (rowGet a c)" and "isStr (rowGet b c)"
  shows "(compareRows rt c ''ASC'' a b \<le> 0) = (strKey c a \<le> strKey c b)"
    and "(compareRows rt c ''DESC'' a b \<le> 0) = (strKey c b \<le> strKey c a)"
  using assms
  by (cases "rowGet a c"; cases "rowGet b c";
      auto simp: compareRows_def isNullish_def jsLess_def strKey_def)+

lemma distinct_numKey:
  "list_all (\<lambda>r. isNum (rowGet r c)) xs \<Longrightarrow> distinct (map (\<lambda>r. rowGet r c) xs) \<Longrightarrow>
   distinct (map (numKey c) xs)"
proof (induction xs)
  case Nil
  show ?case by simp
next
  case (Cons x xs)
  have "numKey c x \<notin> numKey c ` set xs"
  proof
    assume "numKey c x \<in> numKey c ` set xs"
    then obtain y where y: "y \<in> set xs" "numKey c x = numKey c y" by auto
    from Cons.prems(1) y(1) have "isNum (rowGet x c)" "isNum (rowGet y c)"
      by (simp_all add: list_all_iff)
    with y(2) have "rowGet x c = rowGet y c"
      by (cases "rowGet x c"; cases "rowGet y c") (simp_all add: numKey_def)
    with Cons.prems(2) y(1) show False by auto
  qed
  with Cons show ?case by simp
qed

lemma distinct_strKey:
  "list_all (\<lambda>r. isStr (rowGet r c)) xs \<Longrightarrow> distinct (map (\<lambda>r. rowGet r c) xs) \<Longrightarrow>
   distinct (map (strKey c) xs)"
proof (induction xs)
  case Nil
  show ?case by simp
next
  case (Cons x xs)
  have "strKey c x \<notin> strKey c ` set xs"
  proof
    assume "strKey c x \<in> strKey c ` set xs"
    then obtain y where y: "y \<in> set xs" "strKey c x = strKey c y" by auto
    from Cons.prems(1) y(1) have "isStr (rowGet x c)" "isStr (rowGet y c)"
      by (simp_all add: list_all_iff)
    with y(2) have "rowGet x c = rowGet y c"
      by (cases "rowGet x c"; cases "rowGet y c") (simp_all add: strKey_def)
    with Cons.prems(2) y(1) show False by auto
  qed
  with Cons show ?case by simp
qed

lemma sort_rows_reverse:
  assumes "distinct (map (\<lambda>r. rowGet r c) xs)"
    and "list_all (\<lambda>r. isNum (rowGet r c)) xs \<or> list_all (\<lambda>r. isStr (rowGet r c)) xs"
  shows "sortWith (compareRows rt c ''DESC'') xs = rev (sortWith (compareRows rt c ''ASC'') xs)"
  using assms(2)
proof
  assume n: "list_all (\<lambda>r. isNum (rowGet r c)) xs"
  show ?thesis
    by (rule sortWith_reverse [where k = "numKey c"])
       (use n in \<open>auto simp: list_all_iff compareRows_num distinct_numKey [OF n assms(1)]\<close>)
next
  assume s: "list_all (\<lambda>r. isStr (rowGet r c)) xs"
  show ?thesis
    by (rule sortWith_reverse [where k = "strKey c"])
       (use s in \<open>auto simp: list_all_iff compareRows_str distinct_strKey [OF s assms(1)]\<close>)
qed

text \<open>
  C6, as amended: when the values the selected rows hold in the order column are pairwise
  different, none of them \<^verbatim>\<open>null\<close> or missing, and all of them numbers or all of them
  texts, \<^verbatim>\<open>SELECT ... ORDER BY col DESC\<close> (without \<^verbatim>\<open>LIMIT\<close> and \<^verbatim>\<open>OFFSET\<close>)
  returns exactly the reverse of the rows of \<^verbatim>\<open>SELECT ... ORDER BY col ASC\<close> on the
  same data.
\<close>

theorem order_desc_reverses_asc:
  assumes "oc \<noteq> []" and "c = normalizeIdent (filter (\<lambda>x. x \<noteq> CHR 0x60) oc)"
    and "filterRows (whereHolds rt (parseWhere whereStr)) rs = Some kept"
    and "distinct (map (\<lambda>r. rowGet r c) kept)"
    and "list_all (\<lambda>r. isNum (rowGet r c)) kept \<or> list_all (\<lambda>r. isStr (rowGet r c)) kept"
  shows "selectRows rt rs whereStr (Some oc) ''ASC'' None 0
           = Some (sortWith (compareRows rt c ''ASC'') kept)
       \<and> selectRows rt rs whereStr (Some oc) ''DESC'' None 0
           = Some (rev (sortWith (compareRows rt c ''ASC'') kept))"
  using assms(1,2,3) sort_rows_reverse [OF assms(4,5), of rt]
  by (simp add: selectRows_def)


lemmas sort_defs = selectRows_def sortWith_def compareRows_def isNullish_def jsLess_def
  numLess_def rowGet_def whereHolds_def parseWhere_def normalizeIdent_def

theorem order_desc_reverses_asc_witness:
  "''id'' \<noteq> [] \<and> ''id'' = normalizeIdent (filter (\<lambda>x. x \<noteq> CHR 0x60) ''id'')
   \<and> filterRows (whereHolds decimalRuntime (parseWhere None)) (rows sampleTable) = Some (rows sampleTable)
   \<and> distinct (map (\<lambda>r. rowGet r ''id'') (rows sampleTable))
   \<and> list_all (\<lambda>r. isNum (rowGet r ''id'')) (rows sampleTable)
   \<and> selectRows decimalRuntime (rows sampleTable) None (Some ''id'') ''ASC'' None 0
       = Some [[(''id'', Num 1), (''name'', Str ''Alice'')], [(''id'', Num 2), (''name'', Str ''Bob'')]]
   \<and> selectRows decimalRuntime (rows sampleTable) None (Some ''id'') ''DESC'' None 0
       = Some [[(''id'', Num 2), (''name'', Str ''Bob'')], [(''id'', Num 1), (''name'', Str ''Alice'')]]"
proof -
  have a: "''id'' \<noteq> []" by simp
  have b: "''id'' = normalizeIdent (filter (\<lambda>x. x \<noteq> CHR 0x60) ''id'')"
    by (simp add: normalizeIdent_def)
  have c: "filterRows (whereHolds decimalRuntime (parseWhere None)) (rows sampleTable)
             = Some (rows sampleTable)"
    by (simp add: sampleTable_def whereHolds_def parseWhere_def)
  have d: "distinct (map (\<lambda>r. rowGet r ''id'') (rows sampleTable))"
    by (simp add: sampleTable_def rowGet_def)
  have e: "list_all (\<lambda>r. isNum (rowGet r ''id'')) (rows sampleTable)"
    by (simp add: sampleTable_def rowGet_def)
  have e': "list_all (\<lambda>r. isNum (rowGet r ''id'')) (rows sampleTable)
            \<or> list_all (\<lambda>r. isStr (rowGet r ''id'')) (rows sampleTable)"
    using e by simp
  have s: "sortWith (compareRows decimalRuntime ''id'' ''ASC'') (rows sampleTable)
             = [[(''id'', Num 1), (''name'', Str ''Alice'')], [(''id'', Num 2), (''name'', Str ''Bob'')]]"
    by (simp add: sampleTable_def sortWith_def compareRows_def isNullish_def jsLess_def
          numLess_def rowGet_def)
  from order_desc_reverses_asc [OF a b c d e', unfolded s] a b c d e
  show ?thesis by simp
qed

theorem order_desc_reverses_asc_counterexample:
  "distinct (map (\<lambda>r. rowGet r ''name'') sparseRows)
   \<and> selectRows decimalRuntime sparseRows None (Some ''name'') ''ASC'' None 0
       = Some [[(''id'', Num 2), (''name'', Null)], [(''id'', Num 1), (''name'', Str ''Alice'')]]
   \<and> selectRows decimalRuntime sparseRows None (Some ''name'') ''DESC'' None 0
       = Some [[(''id'', Num 2), (''name'', Null)], [(''id'', Num 1), (''name'', Str ''Alice'')]]
   \<and> selectRows decimalRuntime sparseRows None (Some ''name'') ''DESC'' None 0
       \<noteq> map_option rev (selectRows decimalRuntime sparseRows None (Some ''name'') ''ASC'' None 0)
   \<and> distinct (map (\<lambda>r. rowGet r ''name'') mixedRows)
   \<and> selectRows decimalRuntime mixedRows None (Some ''name'') ''ASC'' None 0 = Some mixedRows
   \<and> selectRows decimalRuntime mixedRows None (Some ''name'') ''DESC'' None 0 = Some mixedRows"
proof -
  have n: "StringToNumber decimalRuntime ''abc'' = None"
    by (simp add: decimalRuntime_def trim_def isSpace_def isUnsignedNumber_def isInteger_def
          isDecimal_def isDigit_def)
  have 1: "distinct (map (\<lambda>r. rowGet r ''name'') sparseRows)"
    by (simp add: sparseRows_def rowGet_def)
  have 2: "selectRows decimalRuntime sparseRows None (Some ''name'') ''ASC'' None 0
       = Some [[(''id'', Num 2), (''name'', Null)], [(''id'', Num 1), (''name'', Str ''Alice'')]]"
    by (simp add: sparseRows_def sort_defs)
  have 3: "selectRows decimalRuntime sparseRows None (Some ''name'') ''DESC'' None 0
       = Some [[(''id'', Num 2), (''name'', Null)], [(''id'', Num 1), (''name'', Str ''Alice'')]]"
    by (simp add: sparseRows_def sort_defs)
  have 4: "selectRows decimalRuntime sparseRows None (Some ''name'') ''DESC'' None 0
       \<noteq> map_option rev (selectRows decimalRuntime sparseRows None (Some ''name'') ''ASC'' None 0)"
    unfolding 2 3 by simp
  have 5: "distinct (map (\<lambda>r. rowGet r ''name'') mixedRows)"
    by (simp add: mixedRows_def rowGet_def)
  have 6: "selectRows decimalRuntime mixedRows None (Some ''name'') ''ASC'' None 0 = Some mixedRows"
    by (simp add: mixedRows_def sort_defs n)
  have 7: "selectRows decimalRuntime mixedRows None (Some ''name'') ''DESC'' None 0 = Some mixedRows"
    by (simp add: mixedRows_def sort_defs n)
  from 1 2 3 4 5 6 7 show ?thesis by blast
qed

subsection \<open>Errors and the store\<close>

lemmas literal_defs = parseIdentifiersList_def pushTrimmed_def trim_def isSpace_def
  parseValuesList_def parseLiteral_def upper_def upperChar_def isQuotedBy_def isInteger_def
  isDecimal_def isDigit_def normalizeIdent_def digitsNumber_def natOfDigits_def digitVal_def

text \<open>
  C1: the claim is that a statement that returns an error leaves the store as it was, and
  that a multi-row \<^verbatim>\<open>INSERT\<close> with a tuple of the wrong arity appends no row and
  advances no counter. The loop of \<^verbatim>\<open>insertInto\<close> checks each tuple when it reaches
  it: on the store of the examples,
  \<^verbatim>\<open>INSERT INTO t (name) VALUES ('Carol'),('Dave','x')\<close> returns the arity error after
  the row of the first tuple has been appended and the counter of \<^verbatim>\<open>id\<close> has gone
  from 3 to 4.
\<close>

theorem insert_arity_error_after_append:
  "insertInto decimalRuntime sampleStore ''t'' (Some ''name'') ''('Carol'),('Dave','x')''
     = (sampleStore
          \<lparr>databases :=
             [(''school'',
               \<lparr> tables =
                   [(''t'', sampleTable\<lparr>rows := rows sampleTable
                                              @ [[(''id'', Num 3), (''name'', Str ''Carol'')]]\<rparr>)] \<rparr>)],
           autoinc := [(''school.t.id'', 4)]\<rparr>,
        ''ERROR: Column count doesn't match value count.'')"
proof -
  have c: "insertColumns (Some ''name'') = Some [''name'']"
    by (simp add: insertColumns_def literal_defs)
  have v: "parseValuesList ''('Carol'),('Dave','x')''
             = [[Str ''Carol''], [Str ''Dave'', Str ''x'']]"
    by (simp add: literal_defs)
  have l: "insertLoop (Some [''name'']) [''id'', ''name''] ''school'' ''t'' [''id'']
             [[Str ''Carol''], [Str ''Dave'', Str ''x'']]
             (rows sampleTable, [(''school.t.id'', 3)], 0)
           = ((rows sampleTable @ [[(''id'', Num 3), (''name'', Str ''Carol'')]],
               [(''school.t.id'', 4)]),
              Inl ''ERROR: Column count doesn't match value count.'')"
    by (simp add: buildRow_def rowSet_def rowGet_def autoKey_def counterOf_def plusOne_3)
  have e: "ensureDB sampleStore = Inr (''school'', \<lparr> tables = [(''t'', sampleTable)] \<rparr>)"
    by (simp add: ensureDB_def sampleStore_def)
  have a: "autoinc sampleStore = [(''school.t.id'', 3)]" by (simp add: sampleStore_def)
  have k: "map name (filter auto (columns sampleTable)) = [''id'']"
          "map name (columns sampleTable) = [''id'', ''name'']"
    by (simp_all add: sampleTable_def)
  show ?thesis
    by (simp add: insertInto_def e c v k a l putTable_def Let_def del: insertLoop.simps)
       (simp add: sampleStore_def)
qed

subsection \<open>Auto-increment counters\<close>

lemma rowGet_rowSet: "rowGet (rowSet r c v) c' = (if c' = c then v else rowGet r c')"
  by (simp add: rowGet_def rowSet_def update_conv')

lemma counterOf_update:
  "counterOf (AList.update k v ai) k' = (if k' = k then v else counterOf ai k')"
  by (simp add: counterOf_def update_conv')

lemma autoKey_inj: "(autoKey d tn c = autoKey d tn c') = (c = c')"
  by (simp add: autoKey_def)

lemma autoFill_row:
  "rowGet (fst (autoFill d tn aks (r, ai))) col
     = (if col \<in> set aks \<and> isNullish (rowGet r col) then Num (counterOf ai (autoKey d tn col))
        else rowGet r col)"
proof (induction aks arbitrary: r ai)
  case Nil
  show ?case by simp
next
  case (Cons a aks)
  show ?case
  proof (cases "rowGet r a = Null \<or> rowGet r a = Undefined")
    case True
    then show ?thesis
      using Cons [of "rowSet r a (Num (counterOf ai (autoKey d tn a)))"
                     "AList.update (autoKey d tn a) (plusOne (counterOf ai (autoKey d tn a))) ai"]
      by (auto simp: Let_def rowGet_rowSet counterOf_update autoKey_inj isNullish_def)
  next
    case False
    then show ?thesis
      using Cons [of r ai] by (auto simp: isNullish_def)
  qed
qed

lemma autoFill_counter:
  "counterOf (snd (autoFill d tn aks (r, ai))) (autoKey d tn col)
     = (if col \<in> set aks \<and> isNullish (rowGet r col) then plusOne (counterOf ai (autoKey d tn col))
        else counterOf ai (autoKey d tn col))"
proof (induction aks arbitrary: r ai)
  case Nil
  show ?case by simp
next
  case (Cons a aks)
  show ?case
  proof (cases "rowGet r a = Null \<or> rowGet r a = Undefined")
    case True
    then show ?thesis
      using Cons [of "rowSet r a (Num (counterOf ai (autoKey d tn a)))"
                     "AList.update (autoKey d tn a) (plusOne (counterOf ai (autoKey d tn a))) ai"]
      by (auto simp: Let_def rowGet_rowSet counterOf_update autoKey_inj isNullish_def)
  next
    case False
    then show ?thesis
      using Cons [of r ai] by (auto simp: isNullish_def)
  qed
qed

lemma consecutive_Cons: "Num c # consecutive (c + 1) m = consecutive c (Suc m)"
proof -
  have "[0..<Suc m] = 0 # map Suc [0..<m]"
    by (simp add: upt_conv_Cons map_Suc_upt del: upt_Suc)
  then have "consecutive c (Suc m) = Num c # map (\<lambda>i. Num (c + of_nat (Suc i))) [0..<m]"
    unfolding consecutive_def by (simp add: comp_def del: upt_Suc)
  also have "map (\<lambda>i. Num (c + of_nat (Suc i))) [0..<m] = consecutive (c + 1) m"
    by (simp add: consecutive_def add.assoc add.commute)
  finally show ?thesis by simp
qed

lemma length_consecutive: "length (consecutive c m) = m"
  by (simp add: consecutive_def)

lemma distinct_consecutive: "distinct (consecutive c m)"
  by (simp add: consecutive_def distinct_map inj_on_def)

lemma insertLoop_rows:
  assumes "col \<in> set aks"
  shows "counterOf ai (autoKey d tn col) = of_nat c \<Longrightarrow>
         c + toFill col (rowsBuilt (map (buildRow cp ac) vs)) \<le> 2 ^ 53 \<Longrightarrow>
         \<exists>news. fst (fst (insertLoop cp ac d tn aks vs (rs, ai, n))) = rs @ news
           \<and> filled col (rowsBuilt (map (buildRow cp ac) vs)) news
               = consecutive (of_nat c) (toFill col (rowsBuilt (map (buildRow cp ac) vs)))
           \<and> counterOf (snd (fst (insertLoop cp ac d tn aks vs (rs, ai, n)))) (autoKey d tn col)
               = of_nat (c + toFill col (rowsBuilt (map (buildRow cp ac) vs)))"
proof (induction vs arbitrary: rs ai n c)
  case Nil
  then show ?case by (simp add: consecutive_def filled_def toFill_def)
next
  case (Cons v vs)
  let ?k = "autoKey d tn col"
  let ?built = "rowsBuilt (map (buildRow cp ac) vs)"
  show ?case
  proof (cases "buildRow cp ac v")
    case (Inl err)
    with Cons.prems show ?thesis by (simp add: consecutive_def filled_def toFill_def)
  next
    case (Inr r)
    obtain r' ai' where f: "autoFill d tn aks (r, ai) = (r', ai')" by (cases "autoFill d tn aks (r, ai)")
    from f autoFill_row [of d tn aks r ai col] assms Cons.prems(1)
    have row: "rowGet r' col = (if isNullish (rowGet r col) then Num (of_nat c) else rowGet r col)"
      by simp
    from f autoFill_counter [of d tn aks r ai col] assms Cons.prems(1)
    have cnt: "counterOf ai' ?k = (if isNullish (rowGet r col) then plusOne (of_nat c) else of_nat c)"
      by simp
    have l: "insertLoop cp ac d tn aks (v # vs) (rs, ai, n)
               = insertLoop cp ac d tn aks vs (rs @ [r'], ai', n + 1)"
      using Inr f by simp
    have b: "rowsBuilt (map (buildRow cp ac) (v # vs)) = r # ?built" using Inr by simp
    show ?thesis
    proof (cases "isNullish (rowGet r col)")
      case True
      have tf: "toFill col (r # ?built) = Suc (toFill col ?built)"
        using True by (simp add: toFill_def)
      from Cons.prems(2) have bound: "Suc c + toFill col ?built \<le> 2 ^ 53"
        unfolding b tf by simp
      then have "c < 2 ^ 53" by linarith
      then have "plusOne (of_nat c) = of_nat c + 1" by (rule plusOne_nat)
      with cnt True have c1: "counterOf ai' ?k = of_nat (Suc c)" by simp
      from Cons.IH [OF c1 bound, of "rs @ [r']" "n + 1"]
      obtain news where
        1: "fst (fst (insertLoop cp ac d tn aks vs (rs @ [r'], ai', n + 1))) = (rs @ [r']) @ news"
        and 2: "filled col ?built news = consecutive (of_nat (Suc c)) (toFill col ?built)"
        and 3: "counterOf (snd (fst (insertLoop cp ac d tn aks vs (rs @ [r'], ai', n + 1)))) ?k
                  = of_nat (Suc c + toFill col ?built)"
        by blast
      have "filled col (r # ?built) (r' # news) = Num (of_nat c) # filled col ?built news"
        using True row by (simp add: filled_def)
      also have "\<dots> = Num (of_nat c) # consecutive (of_nat c + 1) (toFill col ?built)"
        using 2 by (simp add: add.commute)
      also have "\<dots> = consecutive (of_nat c) (Suc (toFill col ?built))"
        by (rule consecutive_Cons)
      finally have 4: "filled col (r # ?built) (r' # news)
                         = consecutive (of_nat c) (toFill col (r # ?built))"
        by (simp only: tf)
      have "fst (fst (insertLoop cp ac d tn aks (v # vs) (rs, ai, n))) = rs @ (r' # news)
           \<and> filled col (rowsBuilt (map (buildRow cp ac) (v # vs))) (r' # news)
               = consecutive (of_nat c) (toFill col (rowsBuilt (map (buildRow cp ac) (v # vs))))
           \<and> counterOf (snd (fst (insertLoop cp ac d tn aks (v # vs) (rs, ai, n)))) ?k
               = of_nat (c + toFill col (rowsBuilt (map (buildRow cp ac) (v # vs))))"
        unfolding l b using 1 3 4 by (simp add: tf)
      then show ?thesis by blast
    next
      case False
      have tf: "toFill col (r # ?built) = toFill col ?built"
        using False by (simp add: toFill_def)
      from Cons.prems(2) have bound: "c + toFill col ?built \<le> 2 ^ 53"
        unfolding b tf by simp
      from cnt False have c0: "counterOf ai' ?k = of_nat c" by simp
      from Cons.IH [OF c0 bound, of "rs @ [r']" "n + 1"]
      obtain news where
        1: "fst (fst (insertLoop cp ac d tn aks vs (rs @ [r'], ai', n + 1))) = (rs @ [r']) @ news"
        and 2: "filled col ?built news = consecutive (of_nat c) (toFill col ?built)"
        and 3: "counterOf (snd (fst (insertLoop cp ac d tn aks vs (rs @ [r'], ai', n + 1)))) ?k
                  = of_nat (c + toFill col ?built)"
        by blast
      have 4: "filled col (r # ?built) (r' # news) = consecutive (of_nat c) (toFill col (r # ?built))"
        using False 2 by (simp add: filled_def tf)
      have "fst (fst (insertLoop cp ac d tn aks (v # vs) (rs, ai, n))) = rs @ (r' # news)
           \<and> filled col (rowsBuilt (map (buildRow cp ac) (v # vs))) (r' # news)
               = consecutive (of_nat c) (toFill col (rowsBuilt (map (buildRow cp ac) (v # vs))))
           \<and> counterOf (snd (fst (insertLoop cp ac d tn aks (v # vs) (rs, ai, n)))) ?k
               = of_nat (c + toFill col (rowsBuilt (map (buildRow cp ac) (v # vs))))"
        unfolding l b using 1 3 4 by (simp add: tf)
      then show ?thesis by blast
    qed
  qed
qed


lemma consecutive_append:
  "consecutive c m @ consecutive (c + of_nat m) k = consecutive c (m + k)"
proof (induction m arbitrary: c)
  case 0
  show ?case by (simp add: consecutive_def)
next
  case (Suc m)
  have e: "c + of_nat (Suc m) = (c + 1) + of_nat m" by simp
  have "consecutive c (Suc m) @ consecutive (c + of_nat (Suc m)) k
          = Num c # (consecutive (c + 1) m @ consecutive ((c + 1) + of_nat m) k)"
    unfolding e by (simp only: consecutive_Cons [symmetric] append_Cons)
  also have "\<dots> = Num c # consecutive (c + 1) (m + k)"
    by (simp only: Suc.IH)
  also have "\<dots> = consecutive c (Suc (m + k))" by (rule consecutive_Cons)
  finally show ?case by simp
qed

lemma ensureDB_Inr:
  assumes "ensureDB e = Inr (d, db)"
  shows "currentDB e = Some d" and "d \<noteq> []" and "map_of (databases e) d = Some db"
  using assms by (auto simp: ensureDB_def split: option.splits if_splits)

lemma ensureDB_putTable:
  assumes "ensureDB e = Inr (d, db)"
  shows "ensureDB ((putTable e d db tn t')\<lparr>autoinc := ai\<rparr>)
           = Inr (d, db\<lparr>tables := AList.update tn t' (tables db)\<rparr>)"
    and "ensureDB (putTable e d db tn t')
           = Inr (d, db\<lparr>tables := AList.update tn t' (tables db)\<rparr>)"
  using ensureDB_Inr [OF assms]
  by (simp_all add: ensureDB_def putTable_def update_conv')

lemma tupleRows_columns: "columns t' = columns t \<Longrightarrow> tupleRows t' s = tupleRows t s"
  by (cases s) simp_all

lemma toIssue_columns: "columns t' = columns t \<Longrightarrow> toIssue t' col stmts = toIssue t col stmts"
  using tupleRows_columns [of t' t] by (simp add: toIssue_def)

lemma insert_step:
  assumes e: "ensureDB e = Inr (d, db)" and t: "map_of (tables db) tn = Some t"
    and a: "col \<in> set (map name (filter auto (columns t)))"
    and c: "counterOf (autoinc e) (autoKey d tn col) = of_nat c"
    and b: "c + toFill col (tupleRows t (InsertInto tn cc vp)) \<le> 2 ^ 53"
  shows "\<exists>db' t'. ensureDB (applyStatement rt e (InsertInto tn cc vp)) = Inr (d, db')
            \<and> map_of (tables db') tn = Some t' \<and> columns t' = columns t"
    and "issuedBy rt e (InsertInto tn cc vp) col
           = consecutive (of_nat c) (toFill col (tupleRows t (InsertInto tn cc vp)))"
    and "counterOf (autoinc (applyStatement rt e (InsertInto tn cc vp))) (autoKey d tn col)
           = of_nat (c + toFill col (tupleRows t (InsertInto tn cc vp)))"
proof -
  let ?cp = "insertColumns cc" and ?ac = "map name (columns t)"
  let ?aks = "map name (filter auto (columns t))" and ?vs = "parseValuesList vp"
  let ?s = "InsertInto tn cc vp"
  obtain rs ai res where l: "insertLoop ?cp ?ac d tn ?aks ?vs (rows t, autoinc e, 0) = ((rs, ai), res)"
    by (metis surj_pair)
  have tr: "tupleRows t ?s = rowsBuilt (map (buildRow ?cp ?ac) ?vs)" by simp
  have b': "c + toFill col (rowsBuilt (map (buildRow ?cp ?ac) ?vs)) \<le> 2 ^ 53"
    using b by (simp only: tr)
  have "\<exists>news. fst (fst (insertLoop ?cp ?ac d tn ?aks ?vs (rows t, autoinc e, 0))) = rows t @ news
           \<and> filled col (rowsBuilt (map (buildRow ?cp ?ac) ?vs)) news
               = consecutive (of_nat c) (toFill col (rowsBuilt (map (buildRow ?cp ?ac) ?vs)))
           \<and> counterOf (snd (fst (insertLoop ?cp ?ac d tn ?aks ?vs (rows t, autoinc e, 0))))
                 (autoKey d tn col)
               = of_nat (c + toFill col (rowsBuilt (map (buildRow ?cp ?ac) ?vs)))"
    by (rule insertLoop_rows [OF a c b'])
  then obtain news where n1: "rs = rows t @ news"
    and n2: "filled col (tupleRows t ?s) news = consecutive (of_nat c) (toFill col (tupleRows t ?s))"
    and n3: "counterOf ai (autoKey d tn col) = of_nat (c + toFill col (tupleRows t ?s))"
    unfolding tr l fst_conv snd_conv by blast
  have ap: "applyStatement rt e ?s = (putTable e d db tn (t\<lparr>rows := rs\<rparr>))\<lparr>autoinc := ai\<rparr>"
    using e t l by (simp add: applyStatement_def insertInto_def Let_def)
  have c0: "currentTable e tn = Some t" using e t by (simp add: currentTable_def)
  have c1: "currentTable (applyStatement rt e ?s) tn = Some (t\<lparr>rows := rs\<rparr>)"
    unfolding ap currentTable_def ensureDB_putTable(1) [OF e] by (simp add: update_conv')
  have st: "storedRows rt e ?s = news" by (simp add: storedRows_def c0 c1 n1)
  show "\<exists>db' t'. ensureDB (applyStatement rt e ?s) = Inr (d, db')
            \<and> map_of (tables db') tn = Some t' \<and> columns t' = columns t"
    unfolding ap ensureDB_putTable(1) [OF e] by (simp add: update_conv')
  show "issuedBy rt e ?s col = consecutive (of_nat c) (toFill col (tupleRows t ?s))"
    using n2 by (simp only: issuedBy_def statementTable.simps c0 option.case st)
  show "counterOf (autoinc (applyStatement rt e ?s)) (autoKey d tn col)
           = of_nat (c + toFill col (tupleRows t ?s))"
    unfolding ap using n3 by simp
qed


lemma delete_step:
  assumes e: "ensureDB e = Inr (d, db)" and t: "map_of (tables db) tn = Some t"
  shows "\<exists>db' t'. ensureDB (applyStatement rt e (DeleteFrom tn w)) = Inr (d, db')
            \<and> map_of (tables db') tn = Some t' \<and> columns t' = columns t"
    and "autoinc (applyStatement rt e (DeleteFrom tn w)) = autoinc e"
    and "issuedBy rt e (DeleteFrom tn w) col = []"
proof -
  let ?f = "filterRows (\<lambda>r. map_option Not (whereHolds rt (parseWhere w) r)) (rows t)"
  show "\<exists>db' t'. ensureDB (applyStatement rt e (DeleteFrom tn w)) = Inr (d, db')
            \<and> map_of (tables db') tn = Some t' \<and> columns t' = columns t"
  proof (cases ?f)
    case None
    then have "applyStatement rt e (DeleteFrom tn w) = e"
      using e t by (simp add: applyStatement_def deleteFrom_def)
    with e t show ?thesis by auto
  next
    case (Some keep)
    then have "applyStatement rt e (DeleteFrom tn w) = putTable e d db tn (t\<lparr>rows := keep\<rparr>)"
      using e t by (simp add: applyStatement_def deleteFrom_def)
    then show ?thesis
      by (simp add: ensureDB_putTable(2) [OF e] update_conv')
  qed
  show "autoinc (applyStatement rt e (DeleteFrom tn w)) = autoinc e"
    using e t by (cases ?f) (simp_all add: applyStatement_def deleteFrom_def putTable_def)
  show "issuedBy rt e (DeleteFrom tn w) col = []"
    by (simp add: issuedBy_def filled_def split: option.splits)
qed

lemma run_issued:
  assumes "list_all (\<lambda>s. statementTable s = tn) stmts"
  shows "ensureDB e = Inr (d, db) \<Longrightarrow> map_of (tables db) tn = Some t \<Longrightarrow>
         col \<in> set (map name (filter auto (columns t))) \<Longrightarrow>
         counterOf (autoinc e) (autoKey d tn col) = of_nat c \<Longrightarrow>
         c + toIssue t col stmts \<le> 2 ^ 53 \<Longrightarrow>
         issuedAll rt e stmts col = consecutive (of_nat c) (toIssue t col stmts)
         \<and> counterOf (autoinc (runAll rt e stmts)) (autoKey d tn col)
           = of_nat (c + toIssue t col stmts)"
  using assms
proof (induction stmts arbitrary: e db t c)
  case Nil
  then show ?case by (simp add: consecutive_def toIssue_def)
next
  case (Cons s ss)
  let ?k = "autoKey d tn col"
  let ?e' = "applyStatement rt e s"
  let ?m = "toFill col (tupleRows t s)"
  from Cons.prems have tn: "statementTable s = tn" and ss: "list_all (\<lambda>s. statementTable s = tn) ss"
    by simp_all
  have ti: "toIssue t col (s # ss) = ?m + toIssue t col ss" by (simp add: toIssue_def)
  from Cons.prems(5) have b1: "c + ?m \<le> 2 ^ 53" and b2: "(c + ?m) + toIssue t col ss \<le> 2 ^ 53"
    unfolding ti by simp_all
  have step: "(\<exists>db' t'. ensureDB ?e' = Inr (d, db') \<and> map_of (tables db') tn = Some t'
                  \<and> columns t' = columns t)
      \<and> issuedBy rt e s col = consecutive (of_nat c) ?m
      \<and> counterOf (autoinc ?e') ?k = of_nat (c + ?m)"
  proof (cases s)
    case (InsertInto tn' cc vp)
    with tn have s: "s = InsertInto tn cc vp" by simp
    note p = Cons.prems(1,2,3,4) b1 [unfolded s]
    have "\<exists>db' t'. ensureDB (applyStatement rt e (InsertInto tn cc vp)) = Inr (d, db')
            \<and> map_of (tables db') tn = Some t' \<and> columns t' = columns t"
      by (rule insert_step(1) [OF p])
    moreover have "issuedBy rt e (InsertInto tn cc vp) col
           = consecutive (of_nat c) (toFill col (tupleRows t (InsertInto tn cc vp)))"
      by (rule insert_step(2) [OF p])
    moreover have "counterOf (autoinc (applyStatement rt e (InsertInto tn cc vp))) ?k
           = of_nat (c + toFill col (tupleRows t (InsertInto tn cc vp)))"
      by (rule insert_step(3) [OF p])
    ultimately show ?thesis unfolding s by blast
  next
    case (DeleteFrom tn' w)
    with tn have s: "s = DeleteFrom tn w" by simp
    have "\<exists>db' t'. ensureDB (applyStatement rt e (DeleteFrom tn w)) = Inr (d, db')
            \<and> map_of (tables db') tn = Some t' \<and> columns t' = columns t"
      by (rule delete_step(1) [OF Cons.prems(1,2)])
    moreover have "autoinc (applyStatement rt e (DeleteFrom tn w)) = autoinc e"
      by (rule delete_step(2) [OF Cons.prems(1,2)])
    moreover have "issuedBy rt e (DeleteFrom tn w) col = []"
      by (rule delete_step(3) [OF Cons.prems(1,2)])
    moreover have "toFill col (tupleRows t (DeleteFrom tn w)) = 0" by (simp add: toFill_def)
    ultimately show ?thesis unfolding s using Cons.prems(4) by (auto simp: consecutive_def)
  qed
  then obtain db' t' where e': "ensureDB ?e' = Inr (d, db')" and t': "map_of (tables db') tn = Some t'"
    and ct: "columns t' = columns t"
    by blast
  from step have i1: "issuedBy rt e s col = consecutive (of_nat c) ?m"
    and c1: "counterOf (autoinc ?e') ?k = of_nat (c + ?m)" by blast+
  have a': "col \<in> set (map name (filter auto (columns t')))" using Cons.prems(3) by (simp only: ct)
  have b': "(c + ?m) + toIssue t' col ss \<le> 2 ^ 53" using b2 by (simp only: toIssue_columns [OF ct])
  from Cons.IH [OF e' t' a' c1 b' ss]
  have i2: "issuedAll rt ?e' ss col = consecutive (of_nat (c + ?m)) (toIssue t col ss)"
    and c2: "counterOf (autoinc (runAll rt ?e' ss)) ?k = of_nat ((c + ?m) + toIssue t col ss)"
    by (simp_all only: toIssue_columns [OF ct])
  have "issuedAll rt e (s # ss) col = issuedBy rt e s col @ issuedAll rt ?e' ss col" by simp
  also have "\<dots> = consecutive (of_nat c) ?m @ consecutive (of_nat c + of_nat ?m) (toIssue t col ss)"
    using i1 i2 by simp
  also have "\<dots> = consecutive (of_nat c) (?m + toIssue t col ss)" by (rule consecutive_append)
  finally have a: "issuedAll rt e (s # ss) col = consecutive (of_nat c) (toIssue t col (s # ss))"
    by (simp only: ti)
  have "counterOf (autoinc (runAll rt e (s # ss))) ?k = of_nat (c + toIssue t col (s # ss))"
    using c2 by (simp add: ti add.assoc)
  with a show ?case by blast
qed

text \<open>
  C3, as amended: let the counter of a column flagged \<^verbatim>\<open>AUTO_INCREMENT\<close> be the
  natural number \<open>c\<close>, and let the tuples of a sequence of \<^verbatim>\<open>INSERT\<close> and
  \<^verbatim>\<open>DELETE\<close> statements on its table leave \<open>m\<close> fields of the column omitted or
  \<^verbatim>\<open>null\<close>, with \<open>c + m \<le> 2 ^ 53\<close>. Then the values the rows stored by the
  statements hold in those fields are \<open>c\<close>, \<open>c + 1\<close>, ..., \<open>c + m - 1\<close>, in the
  order of the tuples (a single multi-row \<^verbatim>\<open>INSERT\<close> is the sequence of one
  statement); so no value is issued twice, also after deletes. The counter of the
  (database, table, column) key never decreases and ends at \<open>c + m\<close>, advanced by one
  for each value issued. Without the bound the claim fails: from \<open>2 ^ 53\<close> on the
  addition of the floats no longer counts, two rows of one \<^verbatim>\<open>INSERT\<close> take the
  same value and the counter stays.
\<close>

theorem auto_increment_consecutive:
  assumes "ensureDB e = Inr (d, db)" and "map_of (tables db) tn = Some t"
    and "col \<in> set (map name (filter auto (columns t)))"
    and "list_all (\<lambda>s. statementTable s = tn) stmts"
    and "counterOf (autoinc e) (autoKey d tn col) = of_nat c"
    and "c + toIssue t col stmts \<le> 2 ^ 53"
  shows "issuedAll rt e stmts col = consecutive (of_nat c) (toIssue t col stmts)
       \<and> distinct (issuedAll rt e stmts col)
       \<and> counterOf (autoinc (runAll rt e stmts)) (autoKey d tn col)
           = of_nat c + of_nat (toIssue t col stmts)
       \<and> counterOf (autoinc e) (autoKey d tn col)
           \<le> counterOf (autoinc (runAll rt e stmts)) (autoKey d tn col)"
proof -
  note r = run_issued [OF assms(4) assms(1,2,3,5,6), of rt]
  from r have "distinct (issuedAll rt e stmts col)"
    using distinct_consecutive [of "of_nat c" "toIssue t col stmts"] by simp
  with r assms(5) show ?thesis by simp
qed

theorem auto_increment_consecutive_witness:
  "ensureDB sampleStore = Inr (''school'', \<lparr> tables = [(''t'', sampleTable)] \<rparr>)
   \<and> ''id'' \<in> set (map name (filter auto (columns sampleTable)))
   \<and> counterOf (autoinc sampleStore) ''school.t.id'' = 3
   \<and> toIssue sampleTable ''id''
        [InsertInto ''t'' (Some ''name'') ''('Carol'),('Dave')'',
         DeleteFrom ''t'' (Some ''id=4''),
         InsertInto ''t'' None ''(NULL,'Eve')''] = 3
   \<and> issuedAll decimalRuntime sampleStore
        [InsertInto ''t'' (Some ''name'') ''('Carol'),('Dave')'',
         DeleteFrom ''t'' (Some ''id=4''),
         InsertInto ''t'' None ''(NULL,'Eve')''] ''id''
       = [Num 3, Num 4, Num 5]
   \<and> counterOf (autoinc (runAll decimalRuntime sampleStore
        [InsertInto ''t'' (Some ''name'') ''('Carol'),('Dave')'',
         DeleteFrom ''t'' (Some ''id=4''),
         InsertInto ''t'' None ''(NULL,'Eve')''])) ''school.t.id'' = 6
   \<and> map_option rows (currentTable (runAll decimalRuntime sampleStore
        [InsertInto ''t'' (Some ''name'') ''('Carol'),('Dave')'',
         DeleteFrom ''t'' (Some ''id=4''),
         InsertInto ''t'' None ''(NULL,'Eve')'']) ''t'')
       = Some [[(''id'', Num 1), (''name'', Str ''Alice'')],
               [(''id'', Num 2), (''name'', Str ''Bob'')],
               [(''id'', Num 3), (''name'', Str ''Carol'')],
               [(''id'', Num 5), (''name'', Str ''Eve'')]]"
proof -
  let ?stmts = "[InsertInto ''t'' (Some ''name'') ''('Carol'),('Dave')'',
         DeleteFrom ''t'' (Some ''id=4''),
         InsertInto ''t'' None ''(NULL,'Eve')'']"
  have e: "ensureDB sampleStore = Inr (''school'', \<lparr> tables = [(''t'', sampleTable)] \<rparr>)"
    by (simp add: ensureDB_def sampleStore_def)
  have t: "map_of (tables \<lparr> tables = [(''t'', sampleTable)] \<rparr>) ''t'' = Some sampleTable"
    by simp
  have c: "''id'' \<in> set (map name (filter auto (columns sampleTable)))"
    by (simp add: sampleTable_def)
  have l: "list_all (\<lambda>s. statementTable s = ''t'') ?stmts" by simp
  have k: "autoKey ''school'' ''t'' ''id'' = ''school.t.id''" by (simp add: autoKey_def)
  have c0: "counterOf (autoinc sampleStore) ''school.t.id'' = 3"
    by (simp add: counterOf_def sampleStore_def)
  have c1: "counterOf (autoinc sampleStore) (autoKey ''school'' ''t'' ''id'') = of_nat 3"
    by (simp add: k c0)
  have n: "toIssue sampleTable ''id'' ?stmts = 3" by code_simp
  have b: "3 + toIssue sampleTable ''id'' ?stmts \<le> 2 ^ 53" by (simp add: n)
  have i: "issuedAll decimalRuntime sampleStore ?stmts ''id'' = [Num 3, Num 4, Num 5]"
    by code_simp
  have r: "map_option rows (currentTable (runAll decimalRuntime sampleStore ?stmts) ''t'')
       = Some [[(''id'', Num 1), (''name'', Str ''Alice'')],
               [(''id'', Num 2), (''name'', Str ''Bob'')],
               [(''id'', Num 3), (''name'', Str ''Carol'')],
               [(''id'', Num 5), (''name'', Str ''Eve'')]]"
    by code_simp
  from auto_increment_consecutive [OF e t c l c1 b, of decimalRuntime]
  have "counterOf (autoinc (runAll decimalRuntime sampleStore ?stmts)) ''school.t.id'' = 6"
    unfolding k n by simp
  with e c c0 n i r show ?thesis by blast
qed

theorem auto_increment_consecutive_counterexample:
  "counterOf (autoinc limitStore) ''school.t.id'' = 9007199254740992
   \<and> issuedAll decimalRuntime limitStore
         [InsertInto ''t'' (Some ''name'') ''('Carol'),('Dave')''] ''id''
       = [Num 9007199254740992, Num 9007199254740992]
   \<and> map_option rows (currentTable (runAll decimalRuntime limitStore
         [InsertInto ''t'' (Some ''name'') ''('Carol'),('Dave')'']) ''t'')
       = Some [[(''id'', Num 1), (''name'', Str ''Alice'')],
               [(''id'', Num 2), (''name'', Str ''Bob'')],
               [(''id'', Num 9007199254740992), (''name'', Str ''Carol'')],
               [(''id'', Num 9007199254740992), (''name'', Str ''Dave'')]]
   \<and> counterOf (autoinc (runAll decimalRuntime limitStore
         [InsertInto ''t'' (Some ''name'') ''('Carol'),('Dave')''])) ''school.t.id''
       = 9007199254740992"
proof -
  have 1: "counterOf (autoinc limitStore) ''school.t.id'' = 9007199254740992"
    by (simp add: counterOf_def limitStore_def)
  have 2: "issuedAll decimalRuntime limitStore
         [InsertInto ''t'' (Some ''name'') ''('Carol'),('Dave')''] ''id''
       = [Num 9007199254740992, Num 9007199254740992]"
    by code_simp
  have 3: "map_option rows (currentTable (runAll decimalRuntime limitStore
         [InsertInto ''t'' (Some ''name'') ''('Carol'),('Dave')'']) ''t'')
       = Some [[(''id'', Num 1), (''name'', Str ''Alice'')],
               [(''id'', Num 2), (''name'', Str ''Bob'')],
               [(''id'', Num 9007199254740992), (''name'', Str ''Carol'')],
               [(''id'', Num 9007199254740992), (''name'', Str ''Dave'')]]"
    by code_simp
  have 4: "counterOf (autoinc (runAll decimalRuntime limitStore
         [InsertInto ''t'' (Some ''name'') ''('Carol'),('Dave')''])) ''school.t.id''
       = 9007199254740992"
    by code_simp
  from 1 2 3 4 show ?thesis by blast
qed

end
